theory Spec2Isabelle
  imports Complex_Main "HOL-Library.AList"
begin

section \<open>Python values\<close>

text \<open>
  The Python values that reach the functions below: \<open>None\<close>, numbers and strings.
  Python's \<open>int\<close>, \<open>float\<close> and \<open>bool\<close> all pass \<open>isinstance(x, (int, float))\<close>
  and are compared and added as numbers, so one constructor \<open>PNum\<close> carries them,
  with exact real arithmetic: rounding and overflow of binary floating point are
  outside this development.
\<close>

datatype pyval = PNone | PNum real | PStr string

datatype py_error = TypeError | ValueError | RuntimeError

text \<open>Truthiness, as \<open>if x:\<close> tests it.\<close>

fun truthy :: "pyval \<Rightarrow> bool" where
  "truthy PNone = False"
| "truthy (PNum x) = (x \<noteq> 0)"
| "truthy (PStr s) = (s \<noteq> [])"

text \<open>
  \<open>round(x, n)\<close>: the nearest multiple of \<open>10 ^ -n\<close>, a tie going to the even
  neighbour.
\<close>

definition round_half_even :: "real \<Rightarrow> int" where
  "round_half_even x =
     (let f = \<lfloor>x\<rfloor>; r = x - of_int f
      in if r < 1 / 2 then f
         else if 1 / 2 < r then f + 1
         else if even f then f else f + 1)"

definition py_round :: "real \<Rightarrow> nat \<Rightarrow> real" where
  "py_round x n = of_int (round_half_even (x * 10 ^ n)) / 10 ^ n"

section \<open>arbitrage_logic.py\<close>

text \<open>
  A price snapshot is a dictionary from tickers to prices. Nothing in Python fixes the
  type of a key or of a value, which is what \<open>validate_price_data\<close> checks, so both
  are \<open>pyval\<close>. A dictionary is the list of its items in insertion order; its keys
  are distinct. An argument that is not a dictionary at all is \<open>NotDict\<close>.
\<close>

type_synonym dict = "(pyval \<times> pyval) list"

datatype pyobj = NotDict pyval | Dict dict

text \<open>An opportunity record: a dictionary with string keys.\<close>

type_synonym opp = "(string \<times> pyval) list"

text \<open>The loop of \<open>validate_price_data\<close> over \<open>prices.items()\<close>.\<close>

fun validate_items :: "dict \<Rightarrow> bool" where
  "validate_items [] = True"
| "validate_items ((ticker, price) # rest) =
     (case ticker of
        PStr _ \<Rightarrow>
          (case price of
             PNum p \<Rightarrow> (if p \<le> 0 then False else validate_items rest)
           | _ \<Rightarrow> False)
      | _ \<Rightarrow> False)"

fun validate_price_data :: "pyobj \<Rightarrow> bool" where
  "validate_price_data (NotDict _) = False"
| "validate_price_data (Dict prices) =
     (if prices = [] then False else validate_items prices)"

text \<open>
  The dictionary literal of \<open>detect_arbitrage\<close>. \<open>stamp\<close> is what
  \<open>datetime.now().isoformat()\<close> returned when the record was built.
\<close>

definition make_opportunity :: "string \<Rightarrow> pyval \<Rightarrow> real \<Rightarrow> real \<Rightarrow> opp" where
  "make_opportunity stamp ticker p1 p2 =
     (let diff = \<bar>p1 - p2\<bar>;
          avg = (p1 + p2) / 2;
          diff_pct = diff / avg;
          buy_source = (if p1 < p2 then ''Source 1'' else ''Source 2'');
          sell_source = (if p1 < p2 then ''Source 2'' else ''Source 1'');
          buy_price = min p1 p2;
          sell_price = max p1 p2
      in [(''timestamp'', PStr stamp),
          (''ticker'', ticker),
          (''price_source_1'', PNum (py_round p1 4)),
          (''price_source_2'', PNum (py_round p2 4)),
          (''difference_abs'', PNum (py_round diff 4)),
          (''difference_pct'', PNum (py_round (diff_pct * 100) 4)),
          (''estimated_profit'', PNum (py_round diff 4)),
          (''buy_source'', PStr buy_source),
          (''sell_source'', PStr sell_source),
          (''buy_price'', PNum (py_round buy_price 4)),
          (''sell_price'', PNum (py_round sell_price 4)),
          (''profit_margin'',
             PNum (py_round ((sell_price - buy_price) / buy_price * 100) 4))])"

text \<open>
  One pass of the loop body for \<open>ticker\<close>: the record to append, if any. A lookup
  that fails or a price that is no number raises inside the inner \<open>try\<close>, whose
  handler goes on with the next ticker.
\<close>

definition check_ticker :: "(pyval \<Rightarrow> string) \<Rightarrow> dict \<Rightarrow> dict \<Rightarrow> real \<Rightarrow> pyval \<Rightarrow> opp option" where
  "check_ticker clock prices1 prices2 threshold ticker =
     (case map_of prices1 ticker of
        Some (PNum p1) \<Rightarrow>
          (case map_of prices2 ticker of
             Some (PNum p2) \<Rightarrow>
               (let diff = \<bar>p1 - p2\<bar>; avg = (p1 + p2) / 2
                in if avg = 0 then None
                   else if threshold < diff / avg
                     then Some (make_opportunity (clock ticker) ticker p1 p2)
                     else None)
           | _ \<Rightarrow> None)
      | _ \<Rightarrow> None)"

fun detect_loop ::
  "(pyval \<Rightarrow> string) \<Rightarrow> dict \<Rightarrow> dict \<Rightarrow> real \<Rightarrow> pyval list \<Rightarrow> opp list \<Rightarrow> opp list" where
  "detect_loop clock prices1 prices2 threshold [] opportunities = opportunities"
| "detect_loop clock prices1 prices2 threshold (ticker # rest) opportunities =
     (case check_ticker clock prices1 prices2 threshold ticker of
        Some opportunity \<Rightarrow>
          detect_loop clock prices1 prices2 threshold rest (opportunities @ [opportunity])
      | None \<Rightarrow> detect_loop clock prices1 prices2 threshold rest opportunities)"

text \<open>
  \<open>set(prices1.keys()) & set(prices2.keys())\<close>. Python leaves the order in which
  a set is iterated open; the model takes the order of \<open>prices1\<close>, and the theorems
  below speak of the records emitted, not of their order.
\<close>

definition common_tickers :: "dict \<Rightarrow> dict \<Rightarrow> pyval list" where
  "common_tickers prices1 prices2 =
     filter (\<lambda>k. k \<in> set (map fst prices2)) (map fst prices1)"

text \<open>
  \<open>clock ticker\<close> is the reading of \<open>datetime.now()\<close> while \<open>ticker\<close> is processed.
  Every exit of the source returns the list \<open>opportunities\<close>.
\<close>

definition detect_arbitrage ::
  "(pyval \<Rightarrow> string) \<Rightarrow> pyobj \<Rightarrow> pyobj \<Rightarrow> pyval \<Rightarrow> opp list" where
  "detect_arbitrage clock prices1 prices2 threshold =
     (if \<not> validate_price_data prices1 then []
      else if \<not> validate_price_data prices2 then []
      else case threshold of
        PNum t \<Rightarrow>
          (if t \<le> 0 then []
           else case (prices1, prices2) of
             (Dict d1, Dict d2) \<Rightarrow>
               (if common_tickers d1 d2 = [] then []
                else detect_loop clock d1 d2 t (common_tickers d1 d2) [])
           | _ \<Rightarrow> [])
      | _ \<Rightarrow> [])"

text \<open>A clock that reads the same at every ticker, for the concrete runs below.\<close>

definition frozen_clock :: "string \<Rightarrow> pyval \<Rightarrow> string" where
  "frozen_clock stamp ticker = stamp"

subsection \<open>calculate_portfolio_metrics\<close>

text \<open>\<open>d.get(key, default)\<close> on a record.\<close>

definition dict_get :: "opp \<Rightarrow> string \<Rightarrow> pyval \<Rightarrow> pyval" where
  "dict_get d key dflt = (case map_of d key of Some v \<Rightarrow> v | None \<Rightarrow> dflt)"

text \<open>
  \<open>sum(...)\<close> adds from the left, starting at the integer 0; adding a string or
  \<open>None\<close> to a number raises \<open>TypeError\<close>.
\<close>

fun py_sum_from :: "real \<Rightarrow> pyval list \<Rightarrow> py_error + real" where
  "py_sum_from acc [] = Inr acc"
| "py_sum_from acc (v # vs) =
     (case v of PNum x \<Rightarrow> py_sum_from (acc + x) vs | _ \<Rightarrow> Inl TypeError)"

text \<open>
  \<open>[opp.get("profit_margin", 0) for opp in opportunities if opp.get("profit_margin")]\<close>:
  the filter is the truthiness of the field, \<open>None\<close> when the key is missing.
\<close>

definition profit_margins :: "opp list \<Rightarrow> pyval list" where
  "profit_margins opportunities =
     map (\<lambda>opp. dict_get opp ''profit_margin'' (PNum 0))
       (filter (\<lambda>opp. truthy (dict_get opp ''profit_margin'' PNone)) opportunities)"

text \<open>\<open>sum(profit_margins) / len(profit_margins) if profit_margins else 0\<close>.\<close>

definition avg_profit_margin :: "opp list \<Rightarrow> py_error + real" where
  "avg_profit_margin opportunities =
     (let margins = profit_margins opportunities
      in if margins \<noteq> []
         then (case py_sum_from 0 margins of
                 Inr margin_sum \<Rightarrow> Inr (margin_sum / real (length margins))
               | Inl e \<Rightarrow> Inl e)
         else Inr 0)"

text \<open>
  \<open>max(opportunities, key=lambda x: x.get("estimated_profit", 0))\<close> keeps the first
  record of largest key. It runs after the sum over the same keys has succeeded, so the
  keys are numbers; comparing a number with a string or \<open>None\<close> raises \<open>TypeError\<close>.
\<close>

fun max_profit_from :: "opp \<Rightarrow> real \<Rightarrow> opp list \<Rightarrow> py_error + opp" where
  "max_profit_from best best_key [] = Inr best"
| "max_profit_from best best_key (opp # rest) =
     (case dict_get opp ''estimated_profit'' (PNum 0) of
        PNum x \<Rightarrow>
          (if best_key < x then max_profit_from opp x rest
           else max_profit_from best best_key rest)
      | _ \<Rightarrow> Inl TypeError)"

definition max_profit_opp :: "opp list \<Rightarrow> py_error + opp option" where
  "max_profit_opp opportunities =
     (case opportunities of
        [] \<Rightarrow> Inr None
      | opp # rest \<Rightarrow>
          (case dict_get opp ''estimated_profit'' (PNum 0) of
             PNum x \<Rightarrow> map_sum id Some (max_profit_from opp x rest)
           | _ \<Rightarrow> Inl TypeError))"

text \<open>The loop filling \<open>ticker_counts\<close>, a dictionary in insertion order.\<close>

fun count_tickers :: "opp list \<Rightarrow> (pyval \<times> nat) list \<Rightarrow> (pyval \<times> nat) list" where
  "count_tickers [] ticker_counts = ticker_counts"
| "count_tickers (opp # rest) ticker_counts =
     (let ticker = dict_get opp ''ticker'' PNone
      in if truthy ticker
         then count_tickers rest
                (AList.update ticker
                   (case map_of ticker_counts ticker of Some n \<Rightarrow> n + 1 | None \<Rightarrow> 1)
                   ticker_counts)
         else count_tickers rest ticker_counts)"

text \<open>\<open>max(ticker_counts.items(), key=lambda x: x[1])\<close>: the first item of largest count.\<close>

fun most_active_from :: "pyval \<times> nat \<Rightarrow> (pyval \<times> nat) list \<Rightarrow> pyval \<times> nat" where
  "most_active_from best [] = best"
| "most_active_from best (item # rest) =
     (if snd best < snd item then most_active_from item rest
      else most_active_from best rest)"

text \<open>
  The dictionary returned. The branch for an empty input has no
  \<open>most_active_ticker_count\<close> key.
\<close>

record metrics =
  total_opportunities :: nat
  total_estimated_profit :: real
  average_profit_margin :: real
  max_profit_opportunity :: "opp option"
  most_active_ticker :: "pyval option"
  most_active_ticker_count :: "nat option"

text \<open>
  \<open>Inl e\<close> is the dictionary \<open>{"error": str(e)}\<close> that the handler of the function
  returns.
\<close>

definition calculate_portfolio_metrics :: "opp list \<Rightarrow> py_error + metrics" where
  "calculate_portfolio_metrics opportunities =
     (if opportunities = []
      then Inr \<lparr>total_opportunities = 0, total_estimated_profit = 0,
                average_profit_margin = 0, max_profit_opportunity = None,
                most_active_ticker = None, most_active_ticker_count = None\<rparr>
      else
        case py_sum_from 0
               (map (\<lambda>opp. dict_get opp ''estimated_profit'' (PNum 0)) opportunities) of
          Inl e \<Rightarrow> Inl e
        | Inr total_profit \<Rightarrow>
            (case avg_profit_margin opportunities of
               Inl e \<Rightarrow> Inl e
             | Inr avg \<Rightarrow>
                 (case max_profit_opp opportunities of
                    Inl e \<Rightarrow> Inl e
                  | Inr best \<Rightarrow>
                      (let ticker_counts = count_tickers opportunities [];
                           most_active =
                             (case ticker_counts of
                                [] \<Rightarrow> None
                              | item # rest \<Rightarrow> Some (most_active_from item rest))
                       in Inr \<lparr>total_opportunities = length opportunities,
                                total_estimated_profit = py_round total_profit 4,
                                average_profit_margin = py_round avg 4,
                                max_profit_opportunity = best,
                                most_active_ticker = map_option fst most_active,
                                most_active_ticker_count =
                                  Some (case most_active of
                                          Some item \<Rightarrow> snd item
                                        | None \<Rightarrow> 0)\<rparr>))))"

text \<open>
  The margins that count towards the average, said without truthiness: the values of
  \<open>profit_margin\<close> that are numbers other than 0, in the order of the records.
\<close>

definition nonzero_margins :: "opp list \<Rightarrow> real list" where
  "nonzero_margins opportunities =
     concat (map (\<lambda>opp. case map_of opp ''profit_margin'' of
                          Some (PNum x) \<Rightarrow> (if x = 0 then [] else [x])
                        | _ \<Rightarrow> [])
               opportunities)"

section \<open>broker_apis.py: RateLimiter\<close>

text \<open>
  The limiter holds \<open>max_calls\<close> and the list \<open>calls\<close> of the clock readings of earlier
  calls. One limiter serves one caller at a time: what another coroutine does to
  \<open>calls\<close> during the sleep is outside this model.
\<close>

record rate_limiter =
  max_calls :: int
  calls :: "real list"

text \<open>\<open>RateLimiter(max_calls_per_minute)\<close>.\<close>

definition new_limiter :: "int \<Rightarrow> rate_limiter" where
  "new_limiter max_calls_per_minute = \<lparr>max_calls = max_calls_per_minute, calls = []\<rparr>"

text \<open>\<open>min(xs)\<close> raises \<open>ValueError\<close> on the empty list.\<close>

fun py_min :: "real list \<Rightarrow> py_error + real" where
  "py_min [] = Inl ValueError"
| "py_min (x # xs) = Inr (fold min xs x)"

text \<open>
  \<open>acquire\<close> with the clock reading \<open>now\<close> of \<open>time.time()\<close>. The result is what the
  call did, \<open>Inr (Some w)\<close> for a sleep of \<open>w\<close> seconds, \<open>Inr None\<close> for no sleep and
  \<open>Inl e\<close> for an exception, and the limiter it leaves. The reading appended is \<open>now\<close>,
  taken before the sleep. When \<open>min\<close> raises, \<open>calls\<close> has been filtered and the new
  call is not recorded.
\<close>

definition acquire :: "real \<Rightarrow> rate_limiter \<Rightarrow> (py_error + real option) \<times> rate_limiter" where
  "acquire now rl =
     (let kept = filter (\<lambda>call_time. now - call_time < 60) (calls rl)
      in if max_calls rl \<le> int (length kept)
         then (case py_min kept of
                 Inl e \<Rightarrow> (Inl e, rl\<lparr>calls := kept\<rparr>)
               | Inr oldest_call \<Rightarrow>
                   (let wait_time = 60 - (now - oldest_call)
                    in (Inr (if 0 < wait_time then Some wait_time else None),
                        rl\<lparr>calls := kept @ [now]\<rparr>)))
         else (Inr None, rl\<lparr>calls := kept @ [now]\<rparr>))"

text \<open>Successive calls of \<open>acquire\<close> at the given clock readings.\<close>

fun acquire_all :: "real list \<Rightarrow> rate_limiter \<Rightarrow> rate_limiter" where
  "acquire_all [] rl = rl"
| "acquire_all (now # later) rl = acquire_all later (snd (acquire now rl))"

section \<open>real_simulator.py: the opportunity log\<close>

text \<open>\<open>Config.MAX_OPPORTUNITIES_IN_FILE\<close>, from config.py.\<close>

definition MAX_OPPORTUNITIES_IN_FILE :: nat where
  "MAX_OPPORTUNITIES_IN_FILE = 10000"

text \<open>
  What a file holds, as far as \<open>_save_opportunities\<close> tells contents apart: only white
  space; text that \<open>json.loads\<close> rejects; JSON that is no list; a JSON list of records.
  \<open>json.dump\<close> followed by \<open>json.loads\<close> gives back a list of records of strings and
  numbers as it was, so a file written by the function holds the list itself.
\<close>

datatype file_content = Blank | Unparseable | Not_a_list | Json_list "opp list"

text \<open>
  The files the function touches: the log \<open>logs/opportunities_real.json\<close>, the temporary
  file beside it, and the backups by the time stamp in their names. Opening, writing and
  renaming succeed in this model; a failure of the disk is outside it.
\<close>

record files =
  log_file :: "file_content option"
  temp_file :: "file_content option"
  backups :: "(string \<times> file_content) list"

definition no_files :: files where
  "no_files = \<lparr>log_file = None, temp_file = None, backups = []\<rparr>"

text \<open>
  Loading the existing data: the list read, and the files afterwards. A log that does not
  parse is renamed to a backup. The list is empty when the log is missing, blank, not
  parseable or no list.
\<close>

definition load_existing :: "string \<Rightarrow> files \<Rightarrow> opp list \<times> files" where
  "load_existing stamp fs =
     (case log_file fs of
        None \<Rightarrow> ([], fs)
      | Some Blank \<Rightarrow> ([], fs)
      | Some Unparseable \<Rightarrow>
          ([], fs\<lparr>log_file := None,
                  backups := AList.update stamp Unparseable (backups fs)\<rparr>)
      | Some Not_a_list \<Rightarrow> ([], fs)
      | Some (Json_list existing_data) \<Rightarrow> (existing_data, fs))"

text \<open>
  The state of the simulator that the metadata is taken from: \<open>iteration_count\<close> and the
  seconds since \<open>start_time\<close> (0 when it is not set), with the reading of the clock that
  names a backup.
\<close>

record save_context =
  iteration_count :: int
  runtime_seconds :: real
  backup_stamp :: string

text \<open>\<open>opp.update({...})\<close>: a key already there keeps its place, a new one goes last.\<close>

definition add_metadata :: "save_context \<Rightarrow> opp \<Rightarrow> opp" where
  "add_metadata ctx opp =
     AList.update ''runtime_seconds'' (PNum (runtime_seconds ctx))
       (AList.update ''iteration'' (PNum (of_int (iteration_count ctx)))
          (AList.update ''simulation_type'' (PStr ''real_api'') opp))"

text \<open>\<open>xs[-n:]\<close> for \<open>n \<ge> 0\<close>; \<open>xs[-0:]\<close> is the whole list.\<close>

definition last_n :: "nat \<Rightarrow> 'a list \<Rightarrow> 'a list" where
  "last_n n xs = (if n = 0 then xs else drop (length xs - n) xs)"

text \<open>The list to be written: old records, new records with their metadata, capped.\<close>

definition merged_data :: "save_context \<Rightarrow> opp list \<Rightarrow> opp list \<Rightarrow> opp list" where
  "merged_data ctx existing_data opportunities =
     (let extended = existing_data @ map (add_metadata ctx) opportunities
      in if MAX_OPPORTUNITIES_IN_FILE < length extended
         then last_n MAX_OPPORTUNITIES_IN_FILE extended
         else extended)"

text \<open>\<open>json.dump\<close> into the temporary file, then \<open>os.rename\<close> onto the log.\<close>

definition write_temp :: "opp list \<Rightarrow> files \<Rightarrow> files" where
  "write_temp data fs = fs\<lparr>temp_file := Some (Json_list data)\<rparr>"

definition rename_temp :: "files \<Rightarrow> files" where
  "rename_temp fs = fs\<lparr>log_file := temp_file fs, temp_file := None\<rparr>"

definition save_opportunities :: "save_context \<Rightarrow> opp list \<Rightarrow> files \<Rightarrow> files" where
  "save_opportunities ctx opportunities fs =
     (if opportunities = [] then fs
      else
        let (existing_data, fs1) = load_existing (backup_stamp ctx) fs
        in rename_temp (write_temp (merged_data ctx existing_data opportunities) fs1))"

text \<open>One call of \<open>_save_opportunities\<close> after the other, each with its batch.\<close>

fun save_batches :: "(save_context \<times> opp list) list \<Rightarrow> files \<Rightarrow> files" where
  "save_batches [] fs = fs"
| "save_batches ((ctx, opportunities) # later) fs =
     save_batches later (save_opportunities ctx opportunities fs)"

text \<open>The records handed to the calls, in order, as the calls leave them.\<close>

definition saved_records :: "(save_context \<times> opp list) list \<Rightarrow> opp list" where
  "saved_records batches =
     concat (map (\<lambda>(ctx, opportunities). map (add_metadata ctx) opportunities) batches)"

text \<open>What a later call reads back from the log.\<close>

definition reload :: "files \<Rightarrow> opp list" where
  "reload fs = fst (load_existing [] fs)"

section \<open>real_data_stream.py: RealDataStream\<close>

text \<open>
  \<open>PriceData\<close> of broker_apis.py; \<open>get_real_time_prices\<close> reads only \<open>price\<close>.
\<close>

record price_data =
  symbol :: string
  price :: real
  source :: string

text \<open>
  What one source does in one call: the \<open>async with\<close> block raises before any price is
  stored, or \<open>get_multiple_prices\<close> returns a dictionary from symbols to \<open>PriceData\<close>
  or \<open>None\<close>.
\<close>

datatype fetch_outcome = Fetch_raises | Fetch_returns "(string \<times> price_data option) list"

type_synonym snapshot = "(string \<times> real) list"

type_synonym feeds = "(string \<times> snapshot) list"

text \<open>
  The fields of a \<open>RealDataStream\<close>. \<open>apis\<close> is the list of the keys of the dictionary
  of API objects, in its order; \<open>simulation_mode\<close> is \<open>config["simulation_mode"]\<close>.
\<close>

record stream =
  simulation_mode :: bool
  apis :: "string list"
  last_prices :: "string \<rightharpoonup> snapshot"
  error_counts :: "string \<rightharpoonup> int"
  max_errors_per_broker :: int

text \<open>\<open>__init__\<close>, followed by \<open>initialize\<close> finding the APIs \<open>names\<close> at work.\<close>

definition initial_stream :: "string list \<Rightarrow> stream" where
  "initial_stream names =
     \<lparr>simulation_mode = False, apis = names, last_prices = Map.empty,
      error_counts = Map.empty, max_errors_per_broker = 5\<rparr>"

text \<open>What the surroundings give one call: the outcome per source, the simulated feeds.\<close>

record cycle =
  fetch :: "string \<Rightarrow> fetch_outcome"
  simulated :: feeds

text \<open>The loop that converts \<open>PriceData\<close> to a plain dictionary.\<close>

definition api_prices_of :: "(string \<times> price_data option) list \<Rightarrow> snapshot" where
  "api_prices_of prices =
     List.map_filter
       (\<lambda>(symbol, price_data).
          case price_data of
            Some d \<Rightarrow> (if 0 < price d then Some (symbol, price d) else None)
          | None \<Rightarrow> None)
       prices"

text \<open>
  A source fails in a call when the block raises or no valid price comes back (the
  \<open>raise Exception("No valid prices returned")\<close> of the source).
\<close>

definition fetch_fails :: "fetch_outcome \<Rightarrow> bool" where
  "fetch_fails outcome =
     (case outcome of
        Fetch_raises \<Rightarrow> True
      | Fetch_returns prices \<Rightarrow> api_prices_of prices = [])"

text \<open>\<open>self.error_counts.get(name, 0)\<close>.\<close>

definition error_count :: "stream \<Rightarrow> string \<Rightarrow> int" where
  "error_count st name = (case error_counts st name of Some n \<Rightarrow> n | None \<Rightarrow> 0)"

text \<open>The body of the loop over \<open>self.apis.items()\<close> for the source \<open>name\<close>.\<close>

definition poll_api :: "fetch_outcome \<Rightarrow> string \<Rightarrow> stream \<times> feeds \<Rightarrow> stream \<times> feeds" where
  "poll_api outcome name state =
     (let st = fst state; all_prices = snd state
      in if \<not> fetch_fails outcome
         then
           (let api_prices =
                  (case outcome of
                     Fetch_returns prices \<Rightarrow> api_prices_of prices
                   | Fetch_raises \<Rightarrow> [])
            in (st\<lparr>last_prices := (last_prices st)(name \<mapsto> api_prices),
                    error_counts := (error_counts st)(name \<mapsto> 0)\<rparr>,
                AList.update name api_prices all_prices))
         else
           (let st1 = st\<lparr>error_counts := (error_counts st)(name \<mapsto> error_count st name + 1)\<rparr>;
                all_prices1 =
                  (case last_prices st1 name of
                     Some cached \<Rightarrow> AList.update name cached all_prices
                   | None \<Rightarrow> all_prices);
                st2 =
                  (if max_errors_per_broker st1 \<le> error_count st1 name
                   then st1\<lparr>apis := removeAll name (apis st1)\<rparr>
                   else st1)
            in (st2, all_prices1)))"

text \<open>
  The loop. \<open>self.apis.pop(name, None)\<close> shrinks the dictionary that the \<open>for\<close>
  statement is iterating; the next step of its iterator, also the one that would end the
  loop, then raises \<open>RuntimeError: dictionary changed size during iteration\<close>. The
  \<open>for\<close> statement is outside every \<open>try\<close> of the function, so the call raises. The
  fields already changed stay changed.
\<close>

fun poll_loop ::
  "(string \<Rightarrow> fetch_outcome) \<Rightarrow> string list \<Rightarrow> stream \<times> feeds \<Rightarrow> stream \<times> (py_error + feeds)" where
  "poll_loop fetch_of [] state = (fst state, Inr (snd state))"
| "poll_loop fetch_of (name # rest) state =
     (let state' = poll_api (fetch_of name) name state
      in if length (apis (fst state')) \<noteq> length (apis (fst state))
         then (fst state', Inl RuntimeError)
         else poll_loop fetch_of rest state')"

text \<open>\<open>all_prices.update(sim_prices)\<close>.\<close>

definition feeds_update :: "feeds \<Rightarrow> feeds \<Rightarrow> feeds" where
  "feeds_update all_prices sim_prices =
     fold (\<lambda>(name, prices). AList.update name prices) sim_prices all_prices"

text \<open>
  \<open>get_real_time_prices\<close>: the stream it leaves, and the dictionary it returns or the
  exception it raises.
\<close>

definition get_real_time_prices :: "cycle \<Rightarrow> stream \<Rightarrow> stream \<times> (py_error + feeds)" where
  "get_real_time_prices c st =
     (if simulation_mode st then (st, Inr (simulated c))
      else
        case poll_loop (fetch c) (apis st) (st, []) of
          (st', Inl e) \<Rightarrow> (st', Inl e)
        | (st', Inr all_prices) \<Rightarrow>
            (st', Inr (if length all_prices < 2
                       then feeds_update all_prices (simulated c)
                       else all_prices)))"

text \<open>Successive calls, each with what its surroundings give it.\<close>

fun run_cycles :: "cycle list \<Rightarrow> stream \<Rightarrow> stream" where
  "run_cycles [] st = st"
| "run_cycles (c # later) st = run_cycles later (fst (get_real_time_prices c st))"

text \<open>
  A call in which the source \<open>bad\<close> raises and every other source returns one valid
  price, for the concrete runs below.
\<close>

definition one_source_down :: "string \<Rightarrow> cycle" where
  "one_source_down bad =
     \<lparr>fetch = (\<lambda>name. if name = bad then Fetch_raises
                       else Fetch_returns
                         [(''AAPL'', Some \<lparr>symbol = ''AAPL'', price = 100, source = name\<rparr>)]),
      simulated = []\<rparr>"

text \<open>
  Words for what happens to one source in one call. The poll of \<open>b\<close> disables it when
  its fetch fails and the count so reached is at the limit. A source is polled in a call
  when it is active and no source before it in the dictionary is disabled in that call,
  which would end the loop before its turn.
\<close>

definition disables :: "cycle \<Rightarrow> stream \<Rightarrow> string \<Rightarrow> bool" where
  "disables c st b \<longleftrightarrow>
     fetch_fails (fetch c b) \<and> max_errors_per_broker st \<le> error_count st b + 1"

definition polled :: "cycle \<Rightarrow> stream \<Rightarrow> string \<Rightarrow> bool" where
  "polled c st name \<longleftrightarrow>
     name \<in> set (apis st)
     \<and> list_all (\<lambda>b. \<not> disables c st b) (takeWhile (\<lambda>b. b \<noteq> name) (apis st))"

text \<open>In every call of the sequence the source is polled and its fetch fails.\<close>

fun fails_each_poll :: "string \<Rightarrow> cycle list \<Rightarrow> stream \<Rightarrow> bool" where
  "fails_each_poll name [] st = True"
| "fails_each_poll name (c # later) st =
     (polled c st name \<and> fetch_fails (fetch c name)
      \<and> fails_each_poll name later (fst (get_real_time_prices c st)))"

text \<open>A call in which every source raises, for the concrete runs below.\<close>

definition all_sources_down :: cycle where
  "all_sources_down = \<lparr>fetch = (\<lambda>name. Fetch_raises), simulated = []\<rparr>"

section \<open>Properties of the detector\<close>

subsection \<open>The loop and the validation\<close>

lemma detect_loop_append:
  "detect_loop clock d1 d2 t ks acc = acc @ detect_loop clock d1 d2 t ks []"
proof (induction ks arbitrary: acc)
  case Nil
  show ?case by simp
next
  case (Cons k ks)
  show ?case
  proof (cases "check_ticker clock d1 d2 t k")
    case None
    then show ?thesis using Cons.IH [of acc] by simp
  next
    case (Some r)
    then show ?thesis using Cons.IH [of "acc @ [r]"] Cons.IH [of "[r]"] by simp
  qed
qed

lemma set_detect_loop:
  "set (detect_loop clock d1 d2 t ks []) =
     {r. \<exists>k \<in> set ks. check_ticker clock d1 d2 t k = Some r}"
proof (induction ks)
  case Nil
  show ?case by simp
next
  case (Cons k ks)
  show ?case
  proof (cases "check_ticker clock d1 d2 t k")
    case None
    then show ?thesis using Cons.IH by auto
  next
    case (Some r)
    have "detect_loop clock d1 d2 t (k # ks) [] = r # detect_loop clock d1 d2 t ks []"
      using Some detect_loop_append [of clock d1 d2 t ks "[r]"] by simp
    then show ?thesis using Some Cons.IH by auto
  qed
qed

lemma validate_items_member:
  "validate_items d \<Longrightarrow> (k, v) \<in> set d \<Longrightarrow> \<exists>s p. k = PStr s \<and> v = PNum p \<and> 0 < p"
  by (induction d rule: validate_items.induct) (auto split: pyval.splits if_splits)

lemma set_common_tickers:
  "set (common_tickers d1 d2) = fst ` set d1 \<inter> fst ` set d2"
  by (auto simp: common_tickers_def)

lemma set_detect_arbitrage:
  "set (detect_arbitrage clock (Dict d1) (Dict d2) (PNum t)) =
     (if validate_price_data (Dict d1) \<and> validate_price_data (Dict d2) \<and> 0 < t
      then {r. \<exists>k \<in> fst ` set d1 \<inter> fst ` set d2. check_ticker clock d1 d2 t k = Some r}
      else {})"
proof (cases "common_tickers d1 d2 = []")
  case True
  then have "fst ` set d1 \<inter> fst ` set d2 = {}"
    using set_common_tickers [of d1 d2] by simp
  then show ?thesis using True by (auto simp: detect_arbitrage_def)
next
  case False
  then show ?thesis
    by (auto simp: detect_arbitrage_def set_detect_loop set_common_tickers
        simp del: validate_price_data.simps)
qed

lemma map_of_ticker_make_opportunity [simp]:
  "map_of (make_opportunity stamp k p1 p2) ''ticker'' = Some k"
  by (simp add: make_opportunity_def Let_def)

lemma check_ticker_Some:
  "check_ticker clock d1 d2 t k = Some r \<longleftrightarrow>
     (\<exists>p1 p2. map_of d1 k = Some (PNum p1) \<and> map_of d2 k = Some (PNum p2) \<and>
        (p1 + p2) / 2 \<noteq> 0 \<and> t < \<bar>p1 - p2\<bar> / ((p1 + p2) / 2) \<and>
        r = make_opportunity (clock k) k p1 p2)"
  by (auto simp: check_ticker_def Let_def split: option.splits pyval.splits)

lemma validate_items_positive:
  "validate_items d \<Longrightarrow> (k, PNum p) \<in> set d \<Longrightarrow> 0 < p"
  using validate_items_member by blast

subsection \<open>Which tickers are emitted\<close>

text \<open>
  C1. For two snapshots that pass \<open>validate_price_data\<close> and a threshold \<open>t > 0\<close>,
  a ticker present in both with prices \<open>p1\<close> and \<open>p2\<close> gets an opportunity exactly
  when \<open>|p1 - p2| / ((p1 + p2) / 2) > t\<close>; with \<open>p1 = p2\<close> it gets none.
\<close>

theorem detect_arbitrage_emits_iff:
  assumes "validate_price_data (Dict d1)" and "validate_price_data (Dict d2)"
    and "0 < t"
    and "map_of d1 k = Some (PNum p1)" and "map_of d2 k = Some (PNum p2)"
  shows "((\<exists>r \<in> set (detect_arbitrage clock (Dict d1) (Dict d2) (PNum t)).
            map_of r ''ticker'' = Some k)
          \<longleftrightarrow> t < \<bar>p1 - p2\<bar> / ((p1 + p2) / 2))
       \<and> (p1 = p2 \<longrightarrow>
            \<not> (\<exists>r \<in> set (detect_arbitrage clock (Dict d1) (Dict d2) (PNum t)).
                 map_of r ''ticker'' = Some k))"
proof -
  let ?out = "set (detect_arbitrage clock (Dict d1) (Dict d2) (PNum t))"
  have in1: "(k, PNum p1) \<in> set d1" and in2: "(k, PNum p2) \<in> set d2"
    using assms(4,5) by (auto dest: map_of_SomeD)
  have "validate_items d1" and "validate_items d2"
    using assms(1,2) by (auto split: if_splits)
  then have pos: "0 < p1" "0 < p2"
    using in1 in2 validate_items_member by blast+
  have common: "k \<in> fst ` set d1 \<inter> fst ` set d2"
    using in1 in2 by force
  have out: "?out = {r. \<exists>k' \<in> fst ` set d1 \<inter> fst ` set d2.
                        check_ticker clock d1 d2 t k' = Some r}"
    using assms(1-3) set_detect_arbitrage [of clock d1 d2 t] by simp
  have iff: "(\<exists>r \<in> ?out. map_of r ''ticker'' = Some k)
             \<longleftrightarrow> t < \<bar>p1 - p2\<bar> / ((p1 + p2) / 2)"
  proof
    assume "\<exists>r \<in> ?out. map_of r ''ticker'' = Some k"
    then obtain r k' where "check_ticker clock d1 d2 t k' = Some r"
      and "map_of r ''ticker'' = Some k"
      using out by auto
    then show "t < \<bar>p1 - p2\<bar> / ((p1 + p2) / 2)"
      using assms(4,5) by (auto simp: check_ticker_Some)
  next
    assume "t < \<bar>p1 - p2\<bar> / ((p1 + p2) / 2)"
    then have "check_ticker clock d1 d2 t k = Some (make_opportunity (clock k) k p1 p2)"
      using assms(4,5) pos by (simp add: check_ticker_Some)
    then have "make_opportunity (clock k) k p1 p2 \<in> ?out"
      using out common by blast
    then show "\<exists>r \<in> ?out. map_of r ''ticker'' = Some k"
      by (rule bexI [rotated]) simp
  qed
  moreover have "p1 = p2 \<longrightarrow> \<not> t < \<bar>p1 - p2\<bar> / ((p1 + p2) / 2)"
    using assms(3) by simp
  ultimately show ?thesis by blast
qed

theorem detect_arbitrage_emits_iff_witness:
  "validate_price_data (Dict [(PStr ''AAPL'', PNum 100)])
   \<and> validate_price_data (Dict [(PStr ''AAPL'', PNum 101)])
   \<and> (0::real) < 5 / 1000
   \<and> (\<exists>r \<in> set (detect_arbitrage (frozen_clock ''t0'') (Dict [(PStr ''AAPL'', PNum 100)])
                   (Dict [(PStr ''AAPL'', PNum 101)]) (PNum (5 / 1000))).
          map_of r ''ticker'' = Some (PStr ''AAPL''))
   \<and> \<not> (\<exists>r \<in> set (detect_arbitrage (frozen_clock ''t0'') (Dict [(PStr ''AAPL'', PNum 100)])
                   (Dict [(PStr ''AAPL'', PNum 100)]) (PNum (5 / 1000))).
          map_of r ''ticker'' = Some (PStr ''AAPL''))"
proof -
  have v1: "validate_price_data (Dict [(PStr ''AAPL'', PNum 100)])" by simp
  have v2: "validate_price_data (Dict [(PStr ''AAPL'', PNum 101)])" by simp
  have t: "(0::real) < 5 / 1000" by simp
  have l1: "map_of [(PStr ''AAPL'', PNum 100)] (PStr ''AAPL'') = Some (PNum 100)" by simp
  have l2: "map_of [(PStr ''AAPL'', PNum 101)] (PStr ''AAPL'') = Some (PNum 101)" by simp
  have gap: "(5::real) / 1000 < \<bar>100 - 101\<bar> / ((100 + 101) / 2)" by simp
  show ?thesis
    using detect_arbitrage_emits_iff [OF v1 v2 t l1 l2, of "frozen_clock ''t0''"]
      detect_arbitrage_emits_iff [OF v1 v1 t l1 l1, of "frozen_clock ''t0''"] v1 v2 t gap
    by blast
qed

subsection \<open>The threshold check\<close>

text \<open>
  C2 has a threshold above 1 rejected with an empty result. The source rejects a
  threshold only when it is no number or not positive; a threshold above 1 goes through: prices 1 and 100 differ by 99 / 50.5, about 1.96 of their mean,
  which exceeds 3/2.
\<close>

theorem detect_arbitrage_threshold_above_one:
  "(1::real) < 3 / 2
   \<and> detect_arbitrage (frozen_clock ''t0'') (Dict [(PStr ''X'', PNum 1)])
        (Dict [(PStr ''X'', PNum 100)]) (PNum (3 / 2)) \<noteq> []"
  by (simp add: detect_arbitrage_def common_tickers_def check_ticker_def)

text \<open>
  C2, as the code has it. A threshold that is no number or is at most 0 gives the empty
  list; every positive threshold, whatever its size, is handed to the loop over the
  common tickers.
\<close>

theorem detect_arbitrage_threshold_check:
  "((case threshold of PNum t \<Rightarrow> t \<le> 0 | _ \<Rightarrow> True) \<longrightarrow>
      detect_arbitrage clock A B threshold = [])
   \<and> (0 < t \<and> validate_price_data (Dict d1) \<and> validate_price_data (Dict d2) \<longrightarrow>
        detect_arbitrage clock (Dict d1) (Dict d2) (PNum t) =
          detect_loop clock d1 d2 t (common_tickers d1 d2) [])"
  by (auto simp: detect_arbitrage_def split: pyval.splits)

theorem detect_arbitrage_threshold_check_witness:
  "detect_arbitrage (frozen_clock ''t0'') (Dict [(PStr ''X'', PNum 1)])
        (Dict [(PStr ''X'', PNum 100)]) (PNum 0) = []
   \<and> detect_arbitrage (frozen_clock ''t0'') (Dict [(PStr ''X'', PNum 1)])
        (Dict [(PStr ''X'', PNum 100)]) (PStr ''0.5'') = []
   \<and> detect_arbitrage (frozen_clock ''t0'') (Dict [(PStr ''X'', PNum 1)])
        (Dict [(PStr ''X'', PNum 100)]) (PNum (3 / 2)) =
      detect_loop (frozen_clock ''t0'') [(PStr ''X'', PNum 1)] [(PStr ''X'', PNum 100)] (3 / 2)
        [PStr ''X''] []"
proof -
  note T = detect_arbitrage_threshold_check
  have a: "detect_arbitrage (frozen_clock ''t0'') (Dict [(PStr ''X'', PNum 1)])
        (Dict [(PStr ''X'', PNum 100)]) (PNum 0) = []"
    using T [where threshold = "PNum 0"] by simp
  have b: "detect_arbitrage (frozen_clock ''t0'') (Dict [(PStr ''X'', PNum 1)])
        (Dict [(PStr ''X'', PNum 100)]) (PStr ''0.5'') = []"
    using T [where threshold = "PStr ''0.5''"] by simp
  have c: "detect_arbitrage (frozen_clock ''t0'') (Dict [(PStr ''X'', PNum 1)])
        (Dict [(PStr ''X'', PNum 100)]) (PNum (3 / 2)) =
      detect_loop (frozen_clock ''t0'') [(PStr ''X'', PNum 1)] [(PStr ''X'', PNum 100)] (3 / 2)
        (common_tickers [(PStr ''X'', PNum 1)] [(PStr ''X'', PNum 100)]) []"
    using T [where t = "3 / 2" and ?d1.0 = "[(PStr ''X'', PNum 1)]"
        and ?d2.0 = "[(PStr ''X'', PNum 100)]"] by simp
  have d: "common_tickers [(PStr ''X'', PNum 1)] [(PStr ''X'', PNum 100)] = [PStr ''X'']"
    by (simp add: common_tickers_def)
  show ?thesis using a b c unfolding d by blast
qed

subsection \<open>Whole-snapshot rejection\<close>

text \<open>
  C3. A snapshot holding a price that is at most 0 empties the result of the whole call,
  whichever argument it is and whatever the other argument and the threshold are: the
  other tickers yield nothing either.
\<close>

theorem detect_arbitrage_rejects_nonpositive:
  assumes "(k, PNum p) \<in> set d" and "p \<le> 0"
  shows "detect_arbitrage clock (Dict d) other threshold = []
       \<and> detect_arbitrage clock other (Dict d) threshold = []"
proof -
  have "\<not> validate_items d"
    using assms validate_items_positive [of d k p] by auto
  then have "\<not> validate_price_data (Dict d)" by simp
  then show ?thesis by (simp add: detect_arbitrage_def)
qed

theorem detect_arbitrage_rejects_nonpositive_witness:
  "(PStr ''TSLA'', PNum (- 1)) \<in> set [(PStr ''AAPL'', PNum 100), (PStr ''TSLA'', PNum (- 1))]
   \<and> (- 1 :: real) \<le> 0
   \<and> detect_arbitrage (frozen_clock ''t0'') (Dict [(PStr ''AAPL'', PNum 100), (PStr ''TSLA'', PNum (- 1))])
        (Dict [(PStr ''AAPL'', PNum 101)]) (PNum (5 / 1000)) = []
   \<and> detect_arbitrage (frozen_clock ''t0'') (Dict [(PStr ''AAPL'', PNum 101)])
        (Dict [(PStr ''AAPL'', PNum 100), (PStr ''TSLA'', PNum (- 1))]) (PNum (5 / 1000)) = []
   \<and> detect_arbitrage (frozen_clock ''t0'') (Dict [(PStr ''AAPL'', PNum 100)])
        (Dict [(PStr ''AAPL'', PNum 101)]) (PNum (5 / 1000)) \<noteq> []"
proof -
  have m: "(PStr ''TSLA'', PNum (- 1)) \<in> set [(PStr ''AAPL'', PNum 100), (PStr ''TSLA'', PNum (- 1))]"
    by simp
  have n: "(- 1 :: real) \<le> 0" by simp
  have e: "detect_arbitrage (frozen_clock ''t0'') (Dict [(PStr ''AAPL'', PNum 100)])
        (Dict [(PStr ''AAPL'', PNum 101)]) (PNum (5 / 1000)) \<noteq> []"
    by (simp add: detect_arbitrage_def common_tickers_def check_ticker_def)
  show ?thesis
    using detect_arbitrage_rejects_nonpositive [OF m n] m n e by blast
qed

subsection \<open>Swapping the two snapshots\<close>

lemma make_opportunity_fields:
  "map_of (make_opportunity stamp k p1 p2) ''buy_source'' =
     Some (PStr (if p1 < p2 then ''Source 1'' else ''Source 2''))"
  "map_of (make_opportunity stamp k p1 p2) ''sell_source'' =
     Some (PStr (if p1 < p2 then ''Source 2'' else ''Source 1''))"
  "map_of (make_opportunity stamp k p1 p2) ''profit_margin'' =
     Some (PNum (py_round ((max p1 p2 - min p1 p2) / min p1 p2 * 100) 4))"
  "map_of (make_opportunity stamp k p1 p2) ''difference_abs'' =
     Some (PNum (py_round \<bar>p1 - p2\<bar> 4))"
  "map_of (make_opportunity stamp k p1 p2) ''difference_pct'' =
     Some (PNum (py_round (\<bar>p1 - p2\<bar> / ((p1 + p2) / 2) * 100) 4))"
  by (simp_all add: make_opportunity_def Let_def)

lemma check_ticker_swap:
  assumes "0 \<le> t" and "check_ticker clock d1 d2 t k = Some r"
  shows "\<exists>p1 p2. r = make_opportunity (clock k) k p1 p2 \<and> p1 \<noteq> p2 \<and>
           check_ticker clock' d2 d1 t k = Some (make_opportunity (clock' k) k p2 p1)"
proof -
  from assms(2) obtain p1 p2 where
    l1: "map_of d1 k = Some (PNum p1)" and l2: "map_of d2 k = Some (PNum p2)"
    and nz: "(p1 + p2) / 2 \<noteq> 0" and gt: "t < \<bar>p1 - p2\<bar> / ((p1 + p2) / 2)"
    and r: "r = make_opportunity (clock k) k p1 p2"
    unfolding check_ticker_Some by blast
  have ne: "p1 \<noteq> p2"
  proof
    assume "p1 = p2"
    with gt assms(1) show False by simp
  qed
  have "check_ticker clock' d2 d1 t k = Some (make_opportunity (clock' k) k p2 p1)"
    unfolding check_ticker_Some using l1 l2 nz gt
    by (simp add: add.commute abs_minus_commute)
  with r ne show ?thesis by blast
qed

lemma make_opportunity_mirror:
  assumes "p1 \<noteq> p2"
  shows "\<exists>b s m d.
      map_of (make_opportunity st' k p2 p1) ''ticker'' = map_of (make_opportunity st k p1 p2) ''ticker''
    \<and> map_of (make_opportunity st k p1 p2) ''buy_source'' = Some (PStr b)
    \<and> map_of (make_opportunity st k p1 p2) ''sell_source'' = Some (PStr s)
    \<and> b \<noteq> s
    \<and> map_of (make_opportunity st' k p2 p1) ''buy_source'' = Some (PStr s)
    \<and> map_of (make_opportunity st' k p2 p1) ''sell_source'' = Some (PStr b)
    \<and> map_of (make_opportunity st k p1 p2) ''profit_margin'' = Some (PNum m)
    \<and> map_of (make_opportunity st' k p2 p1) ''profit_margin'' = Some (PNum m)
    \<and> map_of (make_opportunity st k p1 p2) ''difference_abs'' = Some (PNum d)
    \<and> map_of (make_opportunity st' k p2 p1) ''difference_abs'' = Some (PNum d)"
proof (cases "p1 < p2")
  case True
  then have "\<not> p2 < p1" by simp
  with True show ?thesis
    by (simp add: make_opportunity_fields min.commute max.commute abs_minus_commute)
next
  case False
  with assms have "p2 < p1" by simp
  with False show ?thesis
    by (simp add: make_opportunity_fields min.commute max.commute abs_minus_commute)
qed

lemma detect_arbitrage_shape:
  assumes "detect_arbitrage clock A B threshold \<noteq> []"
  shows "\<exists>d1 d2 t. A = Dict d1 \<and> B = Dict d2 \<and> threshold = PNum t"
proof -
  have a: "\<exists>d1. A = Dict d1"
    using assms by (cases A) (simp_all add: detect_arbitrage_def split: if_splits)
  have b: "\<exists>d2. B = Dict d2"
    using assms by (cases B) (simp_all add: detect_arbitrage_def split: if_splits)
  have c: "\<exists>t. threshold = PNum t"
    using assms by (cases threshold) (simp_all add: detect_arbitrage_def split: if_splits)
  from a b c show ?thesis by blast
qed

lemma in_detect_arbitrage:
  "r \<in> set (detect_arbitrage clock (Dict d1) (Dict d2) (PNum t)) \<longleftrightarrow>
     validate_price_data (Dict d1) \<and> validate_price_data (Dict d2) \<and> 0 < t \<and>
     (\<exists>k \<in> fst ` set d1 \<inter> fst ` set d2. check_ticker clock d1 d2 t k = Some r)"
proof (cases "validate_price_data (Dict d1) \<and> validate_price_data (Dict d2) \<and> 0 < t")
  case True
  then have "set (detect_arbitrage clock (Dict d1) (Dict d2) (PNum t)) =
      {r. \<exists>k \<in> fst ` set d1 \<inter> fst ` set d2. check_ticker clock d1 d2 t k = Some r}"
    unfolding set_detect_arbitrage by (rule if_P)
  then have "r \<in> set (detect_arbitrage clock (Dict d1) (Dict d2) (PNum t)) \<longleftrightarrow>
      (\<exists>k \<in> fst ` set d1 \<inter> fst ` set d2. check_ticker clock d1 d2 t k = Some r)"
    by (simp only: mem_Collect_eq)
  with True show ?thesis by blast
next
  case False
  then have "set (detect_arbitrage clock (Dict d1) (Dict d2) (PNum t)) = {}"
    unfolding set_detect_arbitrage by (rule if_not_P)
  then have "r \<notin> set (detect_arbitrage clock (Dict d1) (Dict d2) (PNum t))"
    by (simp only: empty_iff not_False_eq_True)
  with False show ?thesis by blast
qed

lemma detect_arbitrage_swap_member:
  assumes "r \<in> set (detect_arbitrage clock A B threshold)"
  shows "\<exists>k p1 p2. r = make_opportunity (clock k) k p1 p2 \<and> p1 \<noteq> p2 \<and>
           make_opportunity (clock' k) k p2 p1 \<in> set (detect_arbitrage clock' B A threshold)"
proof -
  from assms have "detect_arbitrage clock A B threshold \<noteq> []" by auto
  then obtain d1 d2 t where A: "A = Dict d1" and B: "B = Dict d2"
    and t: "threshold = PNum t"
    using detect_arbitrage_shape by blast
  from assms have valid: "validate_price_data (Dict d1)" "validate_price_data (Dict d2)" "0 < t"
    and ex: "\<exists>k \<in> fst ` set d1 \<inter> fst ` set d2. check_ticker clock d1 d2 t k = Some r"
    unfolding A B t in_detect_arbitrage by blast+
  from ex obtain k where k: "k \<in> fst ` set d1 \<inter> fst ` set d2"
    and c: "check_ticker clock d1 d2 t k = Some r"
    by blast
  from valid have "0 \<le> t" by simp
  from check_ticker_swap [OF this c, of clock'] obtain p1 p2 where
    r: "r = make_opportunity (clock k) k p1 p2" and ne: "p1 \<noteq> p2"
    and c': "check_ticker clock' d2 d1 t k = Some (make_opportunity (clock' k) k p2 p1)"
    by blast
  from k have k': "k \<in> fst ` set d2 \<inter> fst ` set d1" by blast
  have "make_opportunity (clock' k) k p2 p1 \<in> set (detect_arbitrage clock' (Dict d2) (Dict d1) (PNum t))"
    unfolding in_detect_arbitrage using valid k' c' by blast
  with r ne show ?thesis unfolding A B t by blast
qed

lemma detect_arbitrage_tickers_subset:
  "(\<lambda>r. map_of r ''ticker'') ` set (detect_arbitrage c X Y threshold)
      \<subseteq> (\<lambda>r. map_of r ''ticker'') ` set (detect_arbitrage c' Y X threshold)"
proof
  fix x
  assume "x \<in> (\<lambda>r. map_of r ''ticker'') ` set (detect_arbitrage c X Y threshold)"
  then obtain r where r: "r \<in> set (detect_arbitrage c X Y threshold)"
    and x: "x = map_of r ''ticker''" by (rule imageE)
  from detect_arbitrage_swap_member [OF r, of c'] obtain k p1 p2 where
    r_eq: "r = make_opportunity (c k) k p1 p2" and
    m: "make_opportunity (c' k) k p2 p1 \<in> set (detect_arbitrage c' Y X threshold)"
    by blast
  have "x = map_of (make_opportunity (c' k) k p2 p1) ''ticker''"
    unfolding x r_eq by (simp only: map_of_ticker_make_opportunity)
  then show "x \<in> (\<lambda>r. map_of r ''ticker'') ` set (detect_arbitrage c' Y X threshold)"
    using m by (rule image_eqI)
qed

text \<open>
  C4. Every opportunity of \<open>detect_arbitrage A B\<close> has a counterpart for the same ticker
  in \<open>detect_arbitrage B A\<close> whose buy and sell labels are exchanged (and the two
  labels differ) while \<open>profit_margin\<close> and \<open>difference_abs\<close> are the same; the
  tickers emitted by the two calls coincide. It holds for all arguments: when a snapshot
  or the threshold is rejected both calls return nothing.
\<close>

theorem detect_arbitrage_swap:
  "(\<forall>r \<in> set (detect_arbitrage clock A B threshold).
      \<exists>r' \<in> set (detect_arbitrage clock' B A threshold). \<exists>b s m d.
          map_of r' ''ticker'' = map_of r ''ticker''
        \<and> map_of r ''buy_source'' = Some (PStr b)
        \<and> map_of r ''sell_source'' = Some (PStr s)
        \<and> b \<noteq> s
        \<and> map_of r' ''buy_source'' = Some (PStr s)
        \<and> map_of r' ''sell_source'' = Some (PStr b)
        \<and> map_of r ''profit_margin'' = Some (PNum m)
        \<and> map_of r' ''profit_margin'' = Some (PNum m)
        \<and> map_of r ''difference_abs'' = Some (PNum d)
        \<and> map_of r' ''difference_abs'' = Some (PNum d))
   \<and> (\<lambda>r. map_of r ''ticker'') ` set (detect_arbitrage clock A B threshold)
     = (\<lambda>r. map_of r ''ticker'') ` set (detect_arbitrage clock' B A threshold)"
proof (rule conjI)
  show "\<forall>r \<in> set (detect_arbitrage clock A B threshold).
      \<exists>r' \<in> set (detect_arbitrage clock' B A threshold). \<exists>b s m d.
          map_of r' ''ticker'' = map_of r ''ticker''
        \<and> map_of r ''buy_source'' = Some (PStr b)
        \<and> map_of r ''sell_source'' = Some (PStr s)
        \<and> b \<noteq> s
        \<and> map_of r' ''buy_source'' = Some (PStr s)
        \<and> map_of r' ''sell_source'' = Some (PStr b)
        \<and> map_of r ''profit_margin'' = Some (PNum m)
        \<and> map_of r' ''profit_margin'' = Some (PNum m)
        \<and> map_of r ''difference_abs'' = Some (PNum d)
        \<and> map_of r' ''difference_abs'' = Some (PNum d)"
  proof (rule ballI)
    fix r
    assume "r \<in> set (detect_arbitrage clock A B threshold)"
    then obtain k p1 p2 where r: "r = make_opportunity (clock k) k p1 p2" and ne: "p1 \<noteq> p2"
      and m: "make_opportunity (clock' k) k p2 p1 \<in> set (detect_arbitrage clock' B A threshold)"
      using detect_arbitrage_swap_member by blast
    show "\<exists>r' \<in> set (detect_arbitrage clock' B A threshold). \<exists>b s m d.
          map_of r' ''ticker'' = map_of r ''ticker''
        \<and> map_of r ''buy_source'' = Some (PStr b)
        \<and> map_of r ''sell_source'' = Some (PStr s)
        \<and> b \<noteq> s
        \<and> map_of r' ''buy_source'' = Some (PStr s)
        \<and> map_of r' ''sell_source'' = Some (PStr b)
        \<and> map_of r ''profit_margin'' = Some (PNum m)
        \<and> map_of r' ''profit_margin'' = Some (PNum m)
        \<and> map_of r ''difference_abs'' = Some (PNum d)
        \<and> map_of r' ''difference_abs'' = Some (PNum d)"
      unfolding r
    proof (rule bexI [where x = "make_opportunity (clock' k) k p2 p1"])
      show "make_opportunity (clock' k) k p2 p1 \<in> set (detect_arbitrage clock' B A threshold)"
        by (rule m)
    qed (rule make_opportunity_mirror [OF ne])
  qed
next
  show "(\<lambda>r. map_of r ''ticker'') ` set (detect_arbitrage clock A B threshold)
     = (\<lambda>r. map_of r ''ticker'') ` set (detect_arbitrage clock' B A threshold)"
    by (rule equalityI) (rule detect_arbitrage_tickers_subset)+
qed

theorem detect_arbitrage_swap_witness:
  "make_opportunity ''t0'' (PStr ''AAPL'') 100 101
     \<in> set (detect_arbitrage (frozen_clock ''t0'') (Dict [(PStr ''AAPL'', PNum 100)])
              (Dict [(PStr ''AAPL'', PNum 101)]) (PNum (5 / 1000)))
   \<and> (\<exists>r' \<in> set (detect_arbitrage (frozen_clock ''t1'') (Dict [(PStr ''AAPL'', PNum 101)])
              (Dict [(PStr ''AAPL'', PNum 100)]) (PNum (5 / 1000))).
        map_of r' ''buy_source'' = Some (PStr ''Source 2'')
      \<and> map_of r' ''sell_source'' = Some (PStr ''Source 1'')
      \<and> map_of r' ''profit_margin'' = Some (PNum 1)
      \<and> map_of r' ''difference_abs'' = Some (PNum 1))"
proof -
  let ?r = "make_opportunity ''t0'' (PStr ''AAPL'') 100 101"
  have mem: "?r \<in> set (detect_arbitrage (frozen_clock ''t0'') (Dict [(PStr ''AAPL'', PNum 100)])
              (Dict [(PStr ''AAPL'', PNum 101)]) (PNum (5 / 1000)))"
    by (simp add: detect_arbitrage_def common_tickers_def check_ticker_def frozen_clock_def)
  have f: "map_of ?r ''buy_source'' = Some (PStr ''Source 1'')"
    "map_of ?r ''sell_source'' = Some (PStr ''Source 2'')"
    "map_of ?r ''profit_margin'' = Some (PNum 1)"
    "map_of ?r ''difference_abs'' = Some (PNum 1)"
    by (simp_all add: make_opportunity_fields py_round_def round_half_even_def)
  from detect_arbitrage_swap [of "frozen_clock ''t0''" "Dict [(PStr ''AAPL'', PNum 100)]"
      "Dict [(PStr ''AAPL'', PNum 101)]" "PNum (5 / 1000)" "frozen_clock ''t1''"] mem
  obtain r' b s m d where
    "r' \<in> set (detect_arbitrage (frozen_clock ''t1'') (Dict [(PStr ''AAPL'', PNum 101)])
              (Dict [(PStr ''AAPL'', PNum 100)]) (PNum (5 / 1000)))"
    "map_of ?r ''buy_source'' = Some (PStr b)"
    "map_of ?r ''sell_source'' = Some (PStr s)"
    "map_of r' ''buy_source'' = Some (PStr s)"
    "map_of r' ''sell_source'' = Some (PStr b)"
    "map_of ?r ''profit_margin'' = Some (PNum m)"
    "map_of r' ''profit_margin'' = Some (PNum m)"
    "map_of ?r ''difference_abs'' = Some (PNum d)"
    "map_of r' ''difference_abs'' = Some (PNum d)"
    by blast
  with f mem show ?thesis by auto
qed



subsection \<open>The scenario of the unit test\<close>

lemma detect_arbitrage_scenario_list:
  "detect_arbitrage clock
      (Dict [(PStr ''AAPL'', PNum 100), (PStr ''TSLA'', PNum 200)])
      (Dict [(PStr ''AAPL'', PNum 101), (PStr ''TSLA'', PNum 199)]) (PNum (5 / 1000)) =
    [[(''timestamp'', PStr (clock (PStr ''AAPL''))), (''ticker'', PStr ''AAPL''),
      (''price_source_1'', PNum 100), (''price_source_2'', PNum 101),
      (''difference_abs'', PNum 1), (''difference_pct'', PNum (995 / 1000)),
      (''estimated_profit'', PNum 1), (''buy_source'', PStr ''Source 1''),
      (''sell_source'', PStr ''Source 2''), (''buy_price'', PNum 100),
      (''sell_price'', PNum 101), (''profit_margin'', PNum 1)],
     [(''timestamp'', PStr (clock (PStr ''TSLA''))), (''ticker'', PStr ''TSLA''),
      (''price_source_1'', PNum 200), (''price_source_2'', PNum 199),
      (''difference_abs'', PNum 1), (''difference_pct'', PNum (5013 / 10000)),
      (''estimated_profit'', PNum 1), (''buy_source'', PStr ''Source 2''),
      (''sell_source'', PStr ''Source 1''), (''buy_price'', PNum 199),
      (''sell_price'', PNum 200), (''profit_margin'', PNum (5025 / 10000))]]"
  by (simp add: detect_arbitrage_def common_tickers_def check_ticker_def
      make_opportunity_def py_round_def round_half_even_def)

text \<open>
  C9 gives the percentage difference of TSLA as approximately 0.502. The TSLA prices 200
  and 199 differ by 1 / 199.5 of their mean, 0.50125 per cent, which
  the record carries rounded as 0.5013. Read to the three decimals it is given with, a
  value is approximately 0.502 when it lies within 0.0005 of it; 0.5013 does not. (1 / 199,
  0.5025 per cent, is the \<open>profit_margin\<close> of that record.)
\<close>

theorem detect_arbitrage_scenario_tsla_pct:
  "set (detect_arbitrage (frozen_clock ''t0'')
          (Dict [(PStr ''AAPL'', PNum 100), (PStr ''TSLA'', PNum 200)])
          (Dict [(PStr ''AAPL'', PNum 101), (PStr ''TSLA'', PNum 199)]) (PNum (5 / 1000))) =
      {[(''timestamp'', PStr ''t0''), (''ticker'', PStr ''AAPL''),
        (''price_source_1'', PNum 100), (''price_source_2'', PNum 101),
        (''difference_abs'', PNum 1), (''difference_pct'', PNum (995 / 1000)),
        (''estimated_profit'', PNum 1), (''buy_source'', PStr ''Source 1''),
        (''sell_source'', PStr ''Source 2''), (''buy_price'', PNum 100),
        (''sell_price'', PNum 101), (''profit_margin'', PNum 1)],
       [(''timestamp'', PStr ''t0''), (''ticker'', PStr ''TSLA''),
        (''price_source_1'', PNum 200), (''price_source_2'', PNum 199),
        (''difference_abs'', PNum 1), (''difference_pct'', PNum (5013 / 10000)),
        (''estimated_profit'', PNum 1), (''buy_source'', PStr ''Source 2''),
        (''sell_source'', PStr ''Source 1''), (''buy_price'', PNum 199),
        (''sell_price'', PNum 200), (''profit_margin'', PNum (5025 / 10000))]}
   \<and> \<not> \<bar>5013 / 10000 - 502 / 1000\<bar> \<le> (5 / 10000 :: real)"
  unfolding detect_arbitrage_scenario_list by (simp add: frozen_clock_def)

text \<open>
  C9, as the code has it. The call returns exactly two opportunities; the percentage
  difference of AAPL is 0.995 and that of TSLA is 0.5013; AAPL is bought at source 1
  (100 against 101) and TSLA at source 2 (199 against 200), the lower price each time.
\<close>

theorem detect_arbitrage_scenario:
  "length (detect_arbitrage clock
          (Dict [(PStr ''AAPL'', PNum 100), (PStr ''TSLA'', PNum 200)])
          (Dict [(PStr ''AAPL'', PNum 101), (PStr ''TSLA'', PNum 199)]) (PNum (5 / 1000))) = 2
   \<and> set (detect_arbitrage clock
          (Dict [(PStr ''AAPL'', PNum 100), (PStr ''TSLA'', PNum 200)])
          (Dict [(PStr ''AAPL'', PNum 101), (PStr ''TSLA'', PNum 199)]) (PNum (5 / 1000))) =
      {[(''timestamp'', PStr (clock (PStr ''AAPL''))), (''ticker'', PStr ''AAPL''),
        (''price_source_1'', PNum 100), (''price_source_2'', PNum 101),
        (''difference_abs'', PNum 1), (''difference_pct'', PNum (995 / 1000)),
        (''estimated_profit'', PNum 1), (''buy_source'', PStr ''Source 1''),
        (''sell_source'', PStr ''Source 2''), (''buy_price'', PNum 100),
        (''sell_price'', PNum 101), (''profit_margin'', PNum 1)],
       [(''timestamp'', PStr (clock (PStr ''TSLA''))), (''ticker'', PStr ''TSLA''),
        (''price_source_1'', PNum 200), (''price_source_2'', PNum 199),
        (''difference_abs'', PNum 1), (''difference_pct'', PNum (5013 / 10000)),
        (''estimated_profit'', PNum 1), (''buy_source'', PStr ''Source 2''),
        (''sell_source'', PStr ''Source 1''), (''buy_price'', PNum 199),
        (''sell_price'', PNum 200), (''profit_margin'', PNum (5025 / 10000))]}"
  unfolding detect_arbitrage_scenario_list by simp


section \<open>Properties of the portfolio metrics\<close>

lemma py_round_zero: "py_round 0 n = 0"
  by (simp add: py_round_def round_half_even_def)

lemma not_truthy_margin:
  assumes "map_of opp ''profit_margin'' = None \<or> map_of opp ''profit_margin'' = Some (PNum 0)"
  shows "\<not> truthy (dict_get opp ''profit_margin'' PNone)"
  using assms by (auto simp: dict_get_def)

lemma profit_margins_skip:
  assumes "map_of opp ''profit_margin'' = None \<or> map_of opp ''profit_margin'' = Some (PNum 0)"
  shows "profit_margins (before @ opp # after) = profit_margins (before @ after)"
  using not_truthy_margin [OF assms] by (simp add: profit_margins_def)

lemma profit_margins_all_skipped:
  assumes "\<forall>opp \<in> set opportunities.
      map_of opp ''profit_margin'' = None \<or> map_of opp ''profit_margin'' = Some (PNum 0)"
  shows "profit_margins opportunities = []"
proof -
  have "filter (\<lambda>opp. truthy (dict_get opp ''profit_margin'' PNone)) opportunities = []"
    unfolding filter_empty_conv using assms not_truthy_margin by blast
  then show ?thesis by (simp add: profit_margins_def)
qed

lemma py_sum_from_numbers:
  "\<forall>v \<in> set vs. \<exists>x. v = PNum x \<Longrightarrow> \<exists>s. py_sum_from acc vs = Inr s"
proof (induction vs arbitrary: acc)
  case Nil
  show ?case by simp
next
  case (Cons v vs)
  from Cons.prems obtain x where "v = PNum x" by auto
  moreover from Cons.prems have "\<forall>v \<in> set vs. \<exists>x. v = PNum x" by simp
  ultimately show ?case using Cons.IH [of "acc + x"] by simp
qed

lemma max_profit_from_numbers:
  "\<forall>opp \<in> set rest. \<exists>x. dict_get opp ''estimated_profit'' (PNum 0) = PNum x \<Longrightarrow>
     \<exists>b. max_profit_from best best_key rest = Inr b"
proof (induction rest arbitrary: best best_key)
  case Nil
  show ?case by simp
next
  case (Cons opp rest)
  from Cons.prems obtain x where x: "dict_get opp ''estimated_profit'' (PNum 0) = PNum x"
    by auto
  from Cons.prems have rest: "\<forall>opp \<in> set rest. \<exists>x. dict_get opp ''estimated_profit'' (PNum 0) = PNum x"
    by simp
  show ?case
    using x Cons.IH [OF rest, of opp x] Cons.IH [OF rest, of best best_key] by simp
qed

lemma max_profit_opp_numbers:
  assumes "\<forall>opp \<in> set opportunities. \<exists>x. dict_get opp ''estimated_profit'' (PNum 0) = PNum x"
  shows "\<exists>b. max_profit_opp opportunities = Inr b"
proof (cases opportunities)
  case Nil
  then show ?thesis by (simp add: max_profit_opp_def)
next
  case (Cons opp rest)
  with assms obtain x where x: "dict_get opp ''estimated_profit'' (PNum 0) = PNum x"
    by auto
  from assms Cons have "\<forall>opp \<in> set rest. \<exists>x. dict_get opp ''estimated_profit'' (PNum 0) = PNum x"
    by simp
  from max_profit_from_numbers [OF this, of opp x] obtain b where
    "max_profit_from opp x rest = Inr b" by blast
  with Cons x show ?thesis by (simp add: max_profit_opp_def)
qed

lemma calculate_portfolio_metrics_all_skipped:
  assumes ne: "opportunities \<noteq> []"
    and skip: "\<forall>opp \<in> set opportunities.
      map_of opp ''profit_margin'' = None \<or> map_of opp ''profit_margin'' = Some (PNum 0)"
    and nums: "\<forall>opp \<in> set opportunities. \<exists>x. dict_get opp ''estimated_profit'' (PNum 0) = PNum x"
  shows "\<exists>m. calculate_portfolio_metrics opportunities = Inr m \<and> average_profit_margin m = 0"
proof -
  have "\<forall>v \<in> set (map (\<lambda>opp. dict_get opp ''estimated_profit'' (PNum 0)) opportunities).
      \<exists>x. v = PNum x"
    using nums by auto
  from py_sum_from_numbers [OF this, of 0] obtain s where
    s: "py_sum_from 0 (map (\<lambda>opp. dict_get opp ''estimated_profit'' (PNum 0)) opportunities) = Inr s"
    by blast
  have a: "avg_profit_margin opportunities = Inr 0"
    using profit_margins_all_skipped [OF skip] by (simp add: avg_profit_margin_def)
  from max_profit_opp_numbers [OF nums] obtain b where b: "max_profit_opp opportunities = Inr b"
    by blast
  show ?thesis
    using ne s a b by (simp add: calculate_portfolio_metrics_def Let_def py_round_zero)
qed

lemma profit_margins_numbers:
  assumes "\<forall>opp \<in> set opportunities.
      map_of opp ''profit_margin'' = None \<or> (\<exists>x. map_of opp ''profit_margin'' = Some (PNum x))"
  shows "profit_margins opportunities = map PNum (nonzero_margins opportunities)"
  using assms
proof (induction opportunities)
  case Nil
  show ?case by (simp add: profit_margins_def nonzero_margins_def)
next
  case (Cons opp rest)
  then have IH: "profit_margins rest = map PNum (nonzero_margins rest)" by simp
  have split: "profit_margins (opp # rest) =
      (if truthy (dict_get opp ''profit_margin'' PNone)
       then [dict_get opp ''profit_margin'' (PNum 0)] else []) @ profit_margins rest"
    by (simp add: profit_margins_def)
  have split': "nonzero_margins (opp # rest) =
      (case map_of opp ''profit_margin'' of
         Some (PNum x) \<Rightarrow> (if x = 0 then [] else [x]) | _ \<Rightarrow> []) @ nonzero_margins rest"
    by (simp add: nonzero_margins_def)
  from Cons.prems have
    "map_of opp ''profit_margin'' = None \<or> (\<exists>x. map_of opp ''profit_margin'' = Some (PNum x))"
    by simp
  then show ?case
  proof
    assume "map_of opp ''profit_margin'' = None"
    then show ?thesis unfolding split split' IH by (simp add: dict_get_def)
  next
    assume "\<exists>x. map_of opp ''profit_margin'' = Some (PNum x)"
    then obtain x where "map_of opp ''profit_margin'' = Some (PNum x)" by blast
    then show ?thesis unfolding split split' IH by (simp add: dict_get_def)
  qed
qed

lemma py_sum_from_PNum: "py_sum_from acc (map PNum xs) = Inr (acc + sum_list xs)"
  by (induction xs arbitrary: acc) (simp_all add: add.assoc)

lemma avg_profit_margin_numbers:
  assumes "\<forall>opp \<in> set opportunities.
      map_of opp ''profit_margin'' = None \<or> (\<exists>x. map_of opp ''profit_margin'' = Some (PNum x))"
  shows "avg_profit_margin opportunities =
     Inr (if nonzero_margins opportunities = [] then 0
          else sum_list (nonzero_margins opportunities)
               / real (length (nonzero_margins opportunities)))"
  unfolding avg_profit_margin_def profit_margins_numbers [OF assms]
  by (simp add: py_sum_from_PNum Let_def)

lemma calculate_portfolio_metrics_average:
  assumes "opportunities \<noteq> []"
    and "calculate_portfolio_metrics opportunities = Inr m"
  shows "\<exists>a. avg_profit_margin opportunities = Inr a \<and> average_profit_margin m = py_round a 4"
  using assms
  by (auto simp: calculate_portfolio_metrics_def Let_def split: sum.splits)

lemma calculate_portfolio_metrics_returns:
  assumes ne: "opportunities \<noteq> []"
    and nums: "\<forall>opp \<in> set opportunities. \<exists>x. dict_get opp ''estimated_profit'' (PNum 0) = PNum x"
    and avg: "avg_profit_margin opportunities = Inr a"
  shows "\<exists>m. calculate_portfolio_metrics opportunities = Inr m
      \<and> average_profit_margin m = py_round a 4"
proof -
  have "\<forall>v \<in> set (map (\<lambda>opp. dict_get opp ''estimated_profit'' (PNum 0)) opportunities).
      \<exists>x. v = PNum x"
    using nums by auto
  from py_sum_from_numbers [OF this, of 0] obtain s where
    s: "py_sum_from 0 (map (\<lambda>opp. dict_get opp ''estimated_profit'' (PNum 0)) opportunities) = Inr s"
    by blast
  from max_profit_opp_numbers [OF nums] obtain b where b: "max_profit_opp opportunities = Inr b"
    by blast
  show ?thesis
    using ne s avg b by (simp add: calculate_portfolio_metrics_def Let_def)
qed

lemma nonzero_margins_skip:
  assumes "map_of opp ''profit_margin'' = None \<or> map_of opp ''profit_margin'' = Some (PNum 0)"
  shows "nonzero_margins (before @ opp # after) = nonzero_margins (before @ after)"
  using assms by (auto simp: nonzero_margins_def)

lemma nonzero_margins_keep:
  assumes "map_of opp ''profit_margin'' = Some (PNum x)" and "x \<noteq> 0"
  shows "nonzero_margins (before @ opp # after)
      = nonzero_margins before @ x # nonzero_margins after"
    and "profit_margins (before @ opp # after)
      = profit_margins before @ PNum x # profit_margins after"
  using assms by (simp_all add: nonzero_margins_def profit_margins_def dict_get_def)

lemma calculate_portfolio_metrics_value:
  assumes ne: "opportunities \<noteq> []"
    and nums: "\<forall>opp \<in> set opportunities.
        \<exists>x. dict_get opp ''estimated_profit'' (PNum 0) = PNum x"
    and margins: "\<forall>opp \<in> set opportunities.
        map_of opp ''profit_margin'' = None \<or> (\<exists>x. map_of opp ''profit_margin'' = Some (PNum x))"
  shows "\<exists>m. calculate_portfolio_metrics opportunities = Inr m
      \<and> average_profit_margin m =
          py_round (if nonzero_margins opportunities = [] then 0
                    else sum_list (nonzero_margins opportunities)
                         / real (length (nonzero_margins opportunities))) 4"
  by (rule calculate_portfolio_metrics_returns
      [OF ne nums avg_profit_margin_numbers [OF margins]])

lemma calculate_portfolio_metrics_skip:
  assumes nums: "\<forall>r \<in> set (before @ opp # after).
        \<exists>x. dict_get r ''estimated_profit'' (PNum 0) = PNum x"
    and margins: "\<forall>r \<in> set (before @ opp # after).
        map_of r ''profit_margin'' = None \<or> (\<exists>x. map_of r ''profit_margin'' = Some (PNum x))"
    and skip: "map_of opp ''profit_margin'' = None \<or> map_of opp ''profit_margin'' = Some (PNum 0)"
  shows "\<exists>m m'. calculate_portfolio_metrics (before @ opp # after) = Inr m
      \<and> calculate_portfolio_metrics (before @ after) = Inr m'
      \<and> average_profit_margin m = average_profit_margin m'"
proof -
  let ?avg = "\<lambda>xs. py_round (if nonzero_margins xs = [] then 0
                    else sum_list (nonzero_margins xs) / real (length (nonzero_margins xs))) 4"
  have "before @ opp # after \<noteq> []" by simp
  from calculate_portfolio_metrics_value [OF this nums margins] obtain m where
    m: "calculate_portfolio_metrics (before @ opp # after) = Inr m"
    and am: "average_profit_margin m = ?avg (before @ opp # after)" by blast
  have same: "?avg (before @ opp # after) = ?avg (before @ after)"
    unfolding nonzero_margins_skip [OF skip] ..
  show ?thesis
  proof (cases "before @ after = []")
    case True
    then have "nonzero_margins (before @ after) = []" by (simp add: nonzero_margins_def)
    then have "?avg (before @ after) = 0" by (simp add: py_round_zero)
    with am same have "average_profit_margin m = 0" by simp
    moreover have "\<exists>m'. calculate_portfolio_metrics (before @ after) = Inr m'
        \<and> average_profit_margin m' = 0"
      using True by (simp add: calculate_portfolio_metrics_def)
    ultimately show ?thesis using m by auto
  next
    case False
    have n': "\<forall>opp \<in> set (before @ after).
        \<exists>x. dict_get opp ''estimated_profit'' (PNum 0) = PNum x"
      using nums by auto
    have m': "\<forall>opp \<in> set (before @ after).
        map_of opp ''profit_margin'' = None \<or> (\<exists>x. map_of opp ''profit_margin'' = Some (PNum x))"
      using margins by auto
    from calculate_portfolio_metrics_value [OF False n' m'] obtain m' where
      "calculate_portfolio_metrics (before @ after) = Inr m'"
      "average_profit_margin m' = ?avg (before @ after)" by blast
    with m am same show ?thesis by auto
  qed
qed

text \<open>
  C10. The \<open>average_profit_margin\<close> that \<open>calculate_portfolio_metrics\<close> returns is
  the mean, rounded to 4 places, of the margins that are numbers other than 0, and 0 when
  there is none: a record whose \<open>profit_margin\<close> is missing or is the number 0 is left
  out by the truthiness filter, a record with another number is kept. So the function
  returns the same average with or without a record of missing or zero margin. When every
  record of a non-empty list is such a record the list of margins is empty and the
  average 0 comes from the \<open>else 0\<close> branch. The empty input returns the zeroed
  dictionary. (The profits are numbers and the margins are numbers or missing, so that
  the sums succeed.)
\<close>

theorem calculate_portfolio_metrics_margin_filter:
  "(map_of opp ''profit_margin'' = None \<or> map_of opp ''profit_margin'' = Some (PNum 0) \<longrightarrow>
      profit_margins (before @ opp # after) = profit_margins (before @ after)
    \<and> avg_profit_margin (before @ opp # after) = avg_profit_margin (before @ after))
   \<and> (opportunities \<noteq> []
      \<and> (\<forall>opp \<in> set opportunities.
            (map_of opp ''profit_margin'' = None \<or> map_of opp ''profit_margin'' = Some (PNum 0))
          \<and> (\<exists>x. dict_get opp ''estimated_profit'' (PNum 0) = PNum x)) \<longrightarrow>
      profit_margins opportunities = []
    \<and> (\<exists>m. calculate_portfolio_metrics opportunities = Inr m \<and> average_profit_margin m = 0))
   \<and> calculate_portfolio_metrics [] =
       Inr \<lparr>total_opportunities = 0, total_estimated_profit = 0,
            average_profit_margin = 0, max_profit_opportunity = None,
            most_active_ticker = None, most_active_ticker_count = None\<rparr>
   \<and> (opportunities \<noteq> []
      \<and> (\<forall>r \<in> set opportunities. \<exists>x. dict_get r ''estimated_profit'' (PNum 0) = PNum x)
      \<and> (\<forall>r \<in> set opportunities.
            map_of r ''profit_margin'' = None \<or> (\<exists>x. map_of r ''profit_margin'' = Some (PNum x)))
      \<longrightarrow>
      (\<exists>m. calculate_portfolio_metrics opportunities = Inr m
         \<and> average_profit_margin m =
             py_round (if nonzero_margins opportunities = [] then 0
                       else sum_list (nonzero_margins opportunities)
                            / real (length (nonzero_margins opportunities))) 4))
   \<and> ((\<forall>r \<in> set (before @ opp # after).
            \<exists>x. dict_get r ''estimated_profit'' (PNum 0) = PNum x)
      \<and> (\<forall>r \<in> set (before @ opp # after).
            map_of r ''profit_margin'' = None \<or> (\<exists>x. map_of r ''profit_margin'' = Some (PNum x)))
      \<and> (map_of opp ''profit_margin'' = None \<or> map_of opp ''profit_margin'' = Some (PNum 0))
      \<longrightarrow>
      (\<exists>m m'. calculate_portfolio_metrics (before @ opp # after) = Inr m
         \<and> calculate_portfolio_metrics (before @ after) = Inr m'
         \<and> average_profit_margin m = average_profit_margin m'))
   \<and> (map_of opp ''profit_margin'' = Some (PNum x) \<and> x \<noteq> 0 \<longrightarrow>
      profit_margins (before @ opp # after)
        = profit_margins before @ PNum x # profit_margins after
    \<and> nonzero_margins (before @ opp # after)
        = nonzero_margins before @ x # nonzero_margins after)
   \<and> (opportunities \<noteq> [] \<and> calculate_portfolio_metrics opportunities = Inr m \<longrightarrow>
      (\<exists>a. avg_profit_margin opportunities = Inr a \<and> average_profit_margin m = py_round a 4))"
proof (intro conjI impI)
  assume "map_of opp ''profit_margin'' = None \<or> map_of opp ''profit_margin'' = Some (PNum 0)"
  then show skip: "profit_margins (before @ opp # after) = profit_margins (before @ after)"
    by (rule profit_margins_skip)
  then show "avg_profit_margin (before @ opp # after) = avg_profit_margin (before @ after)"
    by (simp add: avg_profit_margin_def)
next
  assume h: "opportunities \<noteq> []
      \<and> (\<forall>opp \<in> set opportunities.
            (map_of opp ''profit_margin'' = None \<or> map_of opp ''profit_margin'' = Some (PNum 0))
          \<and> (\<exists>x. dict_get opp ''estimated_profit'' (PNum 0) = PNum x))"
  then show "profit_margins opportunities = []"
    using profit_margins_all_skipped [of opportunities] by blast
  from h show "\<exists>m. calculate_portfolio_metrics opportunities = Inr m \<and> average_profit_margin m = 0"
    using calculate_portfolio_metrics_all_skipped [of opportunities] by blast
next
  show "calculate_portfolio_metrics [] =
       Inr \<lparr>total_opportunities = 0, total_estimated_profit = 0,
            average_profit_margin = 0, max_profit_opportunity = None,
            most_active_ticker = None, most_active_ticker_count = None\<rparr>"
    by (simp add: calculate_portfolio_metrics_def)
next
  assume h: "opportunities \<noteq> []
      \<and> (\<forall>r \<in> set opportunities. \<exists>x. dict_get r ''estimated_profit'' (PNum 0) = PNum x)
      \<and> (\<forall>r \<in> set opportunities.
            map_of r ''profit_margin'' = None \<or> (\<exists>x. map_of r ''profit_margin'' = Some (PNum x)))"
  show "\<exists>m. calculate_portfolio_metrics opportunities = Inr m
         \<and> average_profit_margin m =
             py_round (if nonzero_margins opportunities = [] then 0
                       else sum_list (nonzero_margins opportunities)
                            / real (length (nonzero_margins opportunities))) 4"
    by (rule calculate_portfolio_metrics_value
        [OF h [THEN conjunct1] h [THEN conjunct2, THEN conjunct1]
          h [THEN conjunct2, THEN conjunct2]])
next
  assume h: "(\<forall>r \<in> set (before @ opp # after).
            \<exists>x. dict_get r ''estimated_profit'' (PNum 0) = PNum x)
      \<and> (\<forall>r \<in> set (before @ opp # after).
            map_of r ''profit_margin'' = None \<or> (\<exists>x. map_of r ''profit_margin'' = Some (PNum x)))
      \<and> (map_of opp ''profit_margin'' = None \<or> map_of opp ''profit_margin'' = Some (PNum 0))"
  show "\<exists>m m'. calculate_portfolio_metrics (before @ opp # after) = Inr m
         \<and> calculate_portfolio_metrics (before @ after) = Inr m'
         \<and> average_profit_margin m = average_profit_margin m'"
    by (rule calculate_portfolio_metrics_skip
        [OF h [THEN conjunct1] h [THEN conjunct2, THEN conjunct1]
          h [THEN conjunct2, THEN conjunct2]])
next
  assume h: "map_of opp ''profit_margin'' = Some (PNum x) \<and> x \<noteq> 0"
  show "profit_margins (before @ opp # after)
        = profit_margins before @ PNum x # profit_margins after"
    by (rule nonzero_margins_keep(2) [OF h [THEN conjunct1] h [THEN conjunct2]])
  show "nonzero_margins (before @ opp # after)
        = nonzero_margins before @ x # nonzero_margins after"
    by (rule nonzero_margins_keep(1) [OF h [THEN conjunct1] h [THEN conjunct2]])
next
  assume h: "opportunities \<noteq> [] \<and> calculate_portfolio_metrics opportunities = Inr m"
  show "\<exists>a. avg_profit_margin opportunities = Inr a \<and> average_profit_margin m = py_round a 4"
    by (rule calculate_portfolio_metrics_average [OF h [THEN conjunct1] h [THEN conjunct2]])
qed

theorem calculate_portfolio_metrics_margin_filter_witness:
  "map_of [(''estimated_profit'', PNum 1), (''profit_margin'', PNum 0)] ''profit_margin''
     = Some (PNum 0)
   \<and> map_of [(''estimated_profit'', PNum 2)] ''profit_margin'' = None
   \<and> avg_profit_margin ([[(''profit_margin'', PNum 2)]]
         @ [(''estimated_profit'', PNum 1), (''profit_margin'', PNum 0)] # [])
     = avg_profit_margin ([[(''profit_margin'', PNum 2)]] @ [])
   \<and> profit_margins [[(''estimated_profit'', PNum 1), (''profit_margin'', PNum 0)],
        [(''estimated_profit'', PNum 2)]] = []
   \<and> (\<exists>m. calculate_portfolio_metrics
          [[(''estimated_profit'', PNum 1), (''profit_margin'', PNum 0)],
           [(''estimated_profit'', PNum 2)]] = Inr m
        \<and> average_profit_margin m = 0)
   \<and> (\<exists>m. calculate_portfolio_metrics
          [[(''estimated_profit'', PNum 1), (''profit_margin'', PNum 2)],
           [(''estimated_profit'', PNum 1), (''profit_margin'', PNum 0)]] = Inr m
        \<and> average_profit_margin m = 2)
   \<and> (\<exists>m. calculate_portfolio_metrics
          [[(''estimated_profit'', PNum 1), (''profit_margin'', PNum 1),
            (''ticker'', PStr ''AAPL'')],
           [(''estimated_profit'', PNum 2), (''ticker'', PStr ''AAPL'')],
           [(''estimated_profit'', PNum 3), (''profit_margin'', PNum 5),
            (''ticker'', PStr ''TSLA'')]] = Inr m
        \<and> average_profit_margin m = 3)
   \<and> (\<exists>m m'. calculate_portfolio_metrics
          ([[(''estimated_profit'', PNum 1), (''profit_margin'', PNum 2)]]
            @ [(''estimated_profit'', PNum 1), (''profit_margin'', PNum 0)] # []) = Inr m
        \<and> calculate_portfolio_metrics
          ([[(''estimated_profit'', PNum 1), (''profit_margin'', PNum 2)]] @ []) = Inr m'
        \<and> average_profit_margin m = average_profit_margin m')
   \<and> profit_margins ([] @ [(''estimated_profit'', PNum 1), (''profit_margin'', PNum 2)]
        # [[(''estimated_profit'', PNum 1), (''profit_margin'', PNum 0)]])
     = profit_margins [] @ PNum 2
        # profit_margins [[(''estimated_profit'', PNum 1), (''profit_margin'', PNum 0)]]"
proof -
  let ?zero = "[(''estimated_profit'', PNum 1), (''profit_margin'', PNum 0)]"
  let ?missing = "[(''estimated_profit'', PNum 2)]"
  let ?two = "[(''estimated_profit'', PNum 1), (''profit_margin'', PNum 2)]"
  let ?t1 = "[(''estimated_profit'', PNum 1), (''profit_margin'', PNum 1),
            (''ticker'', PStr ''AAPL'')]"
  let ?t2 = "[(''estimated_profit'', PNum 2), (''ticker'', PStr ''AAPL'')]"
  let ?t3 = "[(''estimated_profit'', PNum 3), (''profit_margin'', PNum 5),
            (''ticker'', PStr ''TSLA'')]"
  note T = calculate_portfolio_metrics_margin_filter
  have z: "map_of ?zero ''profit_margin'' = Some (PNum 0)" by simp
  have m: "map_of ?missing ''profit_margin'' = None" by simp
  have zs: "map_of ?zero ''profit_margin'' = None \<or> map_of ?zero ''profit_margin'' = Some (PNum 0)"
    by simp
  have all: "[?zero, ?missing] \<noteq> []
      \<and> (\<forall>opp \<in> set [?zero, ?missing].
            (map_of opp ''profit_margin'' = None \<or> map_of opp ''profit_margin'' = Some (PNum 0))
          \<and> (\<exists>x. dict_get opp ''estimated_profit'' (PNum 0) = PNum x))"
    by (simp add: dict_get_def)
  note a = T [where opp = ?zero and before = "[[(''profit_margin'', PNum 2)]]" and after = "[]",
      THEN conjunct1, THEN mp, OF zs, THEN conjunct2]
  note b = T [where opportunities = "[?zero, ?missing]",
      THEN conjunct2, THEN conjunct1, THEN mp, OF all]
  have h1: "[?two, ?zero] \<noteq> []
      \<and> (\<forall>r \<in> set [?two, ?zero]. \<exists>x. dict_get r ''estimated_profit'' (PNum 0) = PNum x)
      \<and> (\<forall>r \<in> set [?two, ?zero].
            map_of r ''profit_margin'' = None \<or> (\<exists>x. map_of r ''profit_margin'' = Some (PNum x)))"
    by (simp add: dict_get_def)
  have n1: "nonzero_margins [?two, ?zero] = [2]" by (simp add: nonzero_margins_def)
  have r2: "py_round 2 4 = 2" by (simp add: py_round_def round_half_even_def)
  have c: "\<exists>m. calculate_portfolio_metrics [?two, ?zero] = Inr m \<and> average_profit_margin m = 2"
    using T [where opportunities = "[?two, ?zero]",
      THEN conjunct2, THEN conjunct2, THEN conjunct2, THEN conjunct1, THEN mp, OF h1]
    unfolding n1 by (simp add: r2)
  have h2: "[?t1, ?t2, ?t3] \<noteq> []
      \<and> (\<forall>r \<in> set [?t1, ?t2, ?t3]. \<exists>x. dict_get r ''estimated_profit'' (PNum 0) = PNum x)
      \<and> (\<forall>r \<in> set [?t1, ?t2, ?t3].
            map_of r ''profit_margin'' = None \<or> (\<exists>x. map_of r ''profit_margin'' = Some (PNum x)))"
    by (simp add: dict_get_def)
  have n2: "nonzero_margins [?t1, ?t2, ?t3] = [1, 5]"
    by (simp add: nonzero_margins_def)
  have r3: "py_round 3 4 = 3" by (simp add: py_round_def round_half_even_def)
  have d: "\<exists>m. calculate_portfolio_metrics [?t1, ?t2, ?t3] = Inr m
      \<and> average_profit_margin m = 3"
    using T [where opportunities = "[?t1, ?t2, ?t3]",
      THEN conjunct2, THEN conjunct2, THEN conjunct2, THEN conjunct1, THEN mp, OF h2]
    unfolding n2 by (simp add: r3)
  have h3: "(\<forall>r \<in> set ([?two] @ ?zero # []).
            \<exists>x. dict_get r ''estimated_profit'' (PNum 0) = PNum x)
      \<and> (\<forall>r \<in> set ([?two] @ ?zero # []).
            map_of r ''profit_margin'' = None \<or> (\<exists>x. map_of r ''profit_margin'' = Some (PNum x)))
      \<and> (map_of ?zero ''profit_margin'' = None \<or> map_of ?zero ''profit_margin'' = Some (PNum 0))"
    by (simp add: dict_get_def)
  note e = T [where before = "[?two]" and opp = ?zero and after = "[]",
      THEN conjunct2, THEN conjunct2, THEN conjunct2, THEN conjunct2, THEN conjunct1,
      THEN mp, OF h3]
  have h4: "map_of ?two ''profit_margin'' = Some (PNum 2) \<and> (2::real) \<noteq> 0" by simp
  note f = T [where before = "[]" and opp = ?two and after = "[?zero]" and x = 2,
      THEN conjunct2, THEN conjunct2, THEN conjunct2, THEN conjunct2, THEN conjunct2,
      THEN conjunct1, THEN mp, OF h4, THEN conjunct1]
  show ?thesis
    by (intro conjI) (rule z m a b [THEN conjunct1] b [THEN conjunct2] c d e f)+
qed


section \<open>Properties of the rate limiter\<close>

lemma py_min_nonempty: "xs \<noteq> [] \<Longrightarrow> py_min xs = Inr (Min (set xs))"
proof (cases xs)
  case Nil
  assume "xs \<noteq> []"
  with Nil show ?thesis by simp
next
  case (Cons x rest)
  have "fold min rest x = Min (set (x # rest))"
    by (rule Min.set_eq_fold [symmetric])
  with Cons show ?thesis by (simp only: py_min.simps)
qed

lemma Min_in_list: "xs \<noteq> [] \<Longrightarrow> Min (set xs) \<in> set (xs :: real list)"
proof -
  assume "xs \<noteq> []"
  then have "set xs \<noteq> {}" by (simp only: set_empty not_False_eq_True)
  with finite_set show ?thesis by (rule Min_in)
qed

lemma acquire_not_full:
  assumes "int (length (filter (\<lambda>c. now - c < 60) (calls rl))) < max_calls rl"
  shows "acquire now rl =
      (Inr None, rl\<lparr>calls := filter (\<lambda>c. now - c < 60) (calls rl) @ [now]\<rparr>)"
  using assms by (simp add: acquire_def Let_def)

lemma oldest_kept_young:
  assumes "filter (\<lambda>c. now - c < 60) cs \<noteq> []"
  shows "now - Min (set (filter (\<lambda>c. now - c < (60::real)) cs)) < 60"
proof -
  let ?kept = "filter (\<lambda>c. now - c < 60) cs"
  have "Min (set ?kept) \<in> set ?kept"
    using assms by (rule Min_in_list)
  then show ?thesis by (simp only: set_filter mem_Collect_eq)
qed

lemma acquire_full:
  assumes "filter (\<lambda>c. now - c < 60) (calls rl) \<noteq> []"
    and "max_calls rl \<le> int (length (filter (\<lambda>c. now - c < 60) (calls rl)))"
  shows "acquire now rl =
      (Inr (Some (60 - (now - Min (set (filter (\<lambda>c. now - c < 60) (calls rl)))))),
       rl\<lparr>calls := filter (\<lambda>c. now - c < 60) (calls rl) @ [now]\<rparr>)"
  using assms oldest_kept_young [OF assms(1)]
  by (simp add: acquire_def Let_def py_min_nonempty)

lemma acquire_keeps_young:
  "\<forall>c \<in> set (calls (snd (acquire now rl))). c = now \<or> now - c < 60"
  by (auto simp: acquire_def Let_def split: sum.splits)

lemma acquire_all_within_window:
  assumes "\<forall>a \<in> set (pre @ ts). \<forall>b \<in> set (pre @ ts). b - a < 60"
    and "int (length (pre @ ts)) \<le> n"
  shows "acquire_all ts \<lparr>max_calls = n, calls = pre\<rparr> = \<lparr>max_calls = n, calls = pre @ ts\<rparr>"
  using assms
proof (induction ts arbitrary: pre)
  case Nil
  show ?case by simp
next
  case (Cons t ts)
  have keep: "filter (\<lambda>c. t - c < 60) pre = pre"
    using Cons.prems(1) by (simp add: filter_id_conv)
  have "int (length pre) < n" using Cons.prems(2) by simp
  then have step: "acquire t \<lparr>max_calls = n, calls = pre\<rparr>
      = (Inr None, \<lparr>max_calls = n, calls = pre @ [t]\<rparr>)"
    using acquire_not_full [of t "\<lparr>max_calls = n, calls = pre\<rparr>"] keep by simp
  have "acquire_all ts \<lparr>max_calls = n, calls = pre @ [t]\<rparr>
      = \<lparr>max_calls = n, calls = (pre @ [t]) @ ts\<rparr>"
    using Cons.prems by (intro Cons.IH) simp_all
  with step show ?case by simp
qed

lemma acquire_after_full_window:
  assumes n: "0 < n" and len: "length ts = n"
    and win: "\<forall>t \<in> set ts. t \<le> now \<and> now - t < 60"
  shows "acquire now (acquire_all ts (new_limiter (int n))) =
          (Inr (Some (60 - (now - Min (set ts)))), \<lparr>max_calls = int n, calls = ts @ [now]\<rparr>)
        \<and> 0 < 60 - (now - Min (set ts)) \<and> 60 - (now - Min (set ts)) \<le> 60"
proof -
  have pair: "\<forall>a \<in> set ([] @ ts). \<forall>b \<in> set ([] @ ts). b - a < 60"
  proof (intro ballI)
    fix a b
    assume "a \<in> set ([] @ ts)" and "b \<in> set ([] @ ts)"
    with win have "now - a < 60" and "b \<le> now" by auto
    then show "b - a < 60" by simp
  qed
  have st: "acquire_all ts (new_limiter (int n)) = \<lparr>max_calls = int n, calls = ts\<rparr>"
    using acquire_all_within_window [OF pair, of "int n"] len by (simp add: new_limiter_def)
  have ne: "ts \<noteq> []" using n len by auto
  have keep: "filter (\<lambda>c. now - c < 60) ts = ts"
    using win by (simp add: filter_id_conv)
  have "acquire now \<lparr>max_calls = int n, calls = ts\<rparr> =
      (Inr (Some (60 - (now - Min (set ts)))), \<lparr>max_calls = int n, calls = ts @ [now]\<rparr>)"
    using acquire_full [of now "\<lparr>max_calls = int n, calls = ts\<rparr>"] keep ne len by simp
  moreover have "Min (set ts) \<in> set ts" using ne by (rule Min_in_list)
  then have "Min (set ts) \<le> now" and "now - Min (set ts) < 60" using win by auto
  ultimately show ?thesis using st by simp
qed

text \<open>
  C7. After \<open>acquire\<close> the limiter holds, besides the new reading, only readings
  younger than 60 seconds. When fewer than \<open>max_calls\<close> of them are left the call
  records \<open>now\<close> without sleeping. When the window is full it sleeps
  \<open>60 - (now - oldest)\<close> seconds, \<open>oldest\<close> the least reading kept, which is strictly
  positive, and records \<open>now\<close>. In particular, after \<open>n = max_calls\<close> calls of a fresh
  limiter at readings \<open>ts\<close>, all of them within the 60 seconds before \<open>now\<close>, call
  \<open>n + 1\<close> at \<open>now\<close> sleeps \<open>60 - (now - Min ts)\<close>, more than 0 and at most 60 seconds.
\<close>

theorem acquire_sliding_window:
  "(\<forall>c \<in> set (calls (snd (acquire now rl))). c = now \<or> now - c < 60)
   \<and> (int (length (filter (\<lambda>c. now - c < 60) (calls rl))) < max_calls rl \<longrightarrow>
        acquire now rl =
          (Inr None, rl\<lparr>calls := filter (\<lambda>c. now - c < 60) (calls rl) @ [now]\<rparr>))
   \<and> (filter (\<lambda>c. now - c < 60) (calls rl) \<noteq> []
        \<and> max_calls rl \<le> int (length (filter (\<lambda>c. now - c < 60) (calls rl))) \<longrightarrow>
        acquire now rl =
          (Inr (Some (60 - (now - Min (set (filter (\<lambda>c. now - c < 60) (calls rl)))))),
           rl\<lparr>calls := filter (\<lambda>c. now - c < 60) (calls rl) @ [now]\<rparr>)
        \<and> 0 < 60 - (now - Min (set (filter (\<lambda>c. now - c < 60) (calls rl)))))
   \<and> (0 < n \<and> length ts = n \<and> (\<forall>t \<in> set ts. t \<le> now \<and> now - t < 60) \<longrightarrow>
        acquire now (acquire_all ts (new_limiter (int n))) =
          (Inr (Some (60 - (now - Min (set ts)))), \<lparr>max_calls = int n, calls = ts @ [now]\<rparr>)
        \<and> 0 < 60 - (now - Min (set ts)) \<and> 60 - (now - Min (set ts)) \<le> 60)"
proof (intro conjI impI)
  show "\<forall>c \<in> set (calls (snd (acquire now rl))). c = now \<or> now - c < 60"
    by (rule acquire_keeps_young)
next
  assume "int (length (filter (\<lambda>c. now - c < 60) (calls rl))) < max_calls rl"
  then show "acquire now rl =
          (Inr None, rl\<lparr>calls := filter (\<lambda>c. now - c < 60) (calls rl) @ [now]\<rparr>)"
    by (rule acquire_not_full)
next
  assume h: "filter (\<lambda>c. now - c < 60) (calls rl) \<noteq> []
        \<and> max_calls rl \<le> int (length (filter (\<lambda>c. now - c < 60) (calls rl)))"
  then show "acquire now rl =
          (Inr (Some (60 - (now - Min (set (filter (\<lambda>c. now - c < 60) (calls rl)))))),
           rl\<lparr>calls := filter (\<lambda>c. now - c < 60) (calls rl) @ [now]\<rparr>)"
    using acquire_full [of now rl] by blast
  from h show "0 < 60 - (now - Min (set (filter (\<lambda>c. now - c < 60) (calls rl))))"
    using oldest_kept_young [of now "calls rl"] by simp
next
  assume h: "0 < n \<and> length ts = n \<and> (\<forall>t \<in> set ts. t \<le> now \<and> now - t < 60)"
  then have r: "acquire now (acquire_all ts (new_limiter (int n))) =
          (Inr (Some (60 - (now - Min (set ts)))), \<lparr>max_calls = int n, calls = ts @ [now]\<rparr>)
        \<and> 0 < 60 - (now - Min (set ts)) \<and> 60 - (now - Min (set ts)) \<le> 60"
    using acquire_after_full_window [of n ts now] by blast
  from r show "acquire now (acquire_all ts (new_limiter (int n))) =
          (Inr (Some (60 - (now - Min (set ts)))), \<lparr>max_calls = int n, calls = ts @ [now]\<rparr>)"
    by (rule conjunct1)
  from r show "0 < 60 - (now - Min (set ts))" by simp
  from r show "60 - (now - Min (set ts)) \<le> 60" by simp
qed

theorem acquire_sliding_window_witness:
  "(0::nat) < 3 \<and> length [0, 10, 20 :: real] = 3
   \<and> acquire 30 (acquire_all [0, 10, 20] (new_limiter 3)) =
       (Inr (Some 30), \<lparr>max_calls = 3, calls = [0, 10, 20, 30]\<rparr>)
   \<and> acquire 30 \<lparr>max_calls = 3, calls = [0, 10]\<rparr> =
       (Inr None, \<lparr>max_calls = 3, calls = [0, 10, 30]\<rparr>)
   \<and> acquire 75 \<lparr>max_calls = 2, calls = [0, 20, 40]\<rparr> =
       (Inr (Some 5), \<lparr>max_calls = 2, calls = [20, 40, 75]\<rparr>)"
proof -
  note T = acquire_sliding_window
  have full: "(0::nat) < 3 \<and> length [0, 10, 20 :: real] = 3
      \<and> (\<forall>t \<in> set [0, 10, 20 :: real]. t \<le> 30 \<and> 30 - t < 60)"
    by simp
  have a: "acquire 30 (acquire_all [0, 10, 20] (new_limiter 3)) =
       (Inr (Some 30), \<lparr>max_calls = 3, calls = [0, 10, 20, 30]\<rparr>)"
    using T [where n = 3 and ts = "[0, 10, 20]" and now = 30] full by simp
  have b: "acquire 30 \<lparr>max_calls = 3, calls = [0, 10]\<rparr> =
       (Inr None, \<lparr>max_calls = 3, calls = [0, 10, 30]\<rparr>)"
    using T [where now = 30 and rl = "\<lparr>max_calls = 3, calls = [0, 10]\<rparr>"] by simp
  have c: "acquire 75 \<lparr>max_calls = 2, calls = [0, 20, 40]\<rparr> =
       (Inr (Some 5), \<lparr>max_calls = 2, calls = [20, 40, 75]\<rparr>)"
    using T [where now = 75 and rl = "\<lparr>max_calls = 2, calls = [0, 20, 40]\<rparr>"] by simp
  from full a b c show ?thesis by simp
qed


section \<open>Properties of the opportunity log\<close>

lemma last_n_short: "length xs \<le> n \<Longrightarrow> last_n n xs = xs"
  by (simp add: last_n_def)

lemma length_last_n: "0 < n \<Longrightarrow> length (last_n n xs) = min n (length xs)"
  by (simp add: last_n_def)

lemma last_n_append:
  assumes "0 < n"
  shows "last_n n (last_n n xs @ ys) = last_n n (xs @ ys)"
proof (cases "length xs \<le> n")
  case True
  then show ?thesis by (simp add: last_n_short)
next
  case False
  then have "length xs + length ys - (length xs - n + n) + (length xs - n)
      = length xs + length ys - n"
    by arith
  then show ?thesis using assms by (simp add: last_n_def)
qed

lemma cap_positive: "0 < MAX_OPPORTUNITIES_IN_FILE"
  by (simp add: MAX_OPPORTUNITIES_IN_FILE_def)

lemma merged_data_last_n:
  "merged_data ctx existing opportunities =
     last_n MAX_OPPORTUNITIES_IN_FILE (existing @ map (add_metadata ctx) opportunities)"
  by (simp add: merged_data_def Let_def last_n_short)

lemma reload_stamp: "fst (load_existing stamp fs) = reload fs"
  by (simp add: reload_def load_existing_def split: option.splits file_content.splits)

lemma reload_save_opportunities:
  assumes "opportunities \<noteq> []"
  shows "reload (save_opportunities ctx opportunities fs) =
     last_n MAX_OPPORTUNITIES_IN_FILE (reload fs @ map (add_metadata ctx) opportunities)"
proof -
  obtain existing fs1 where l: "load_existing (backup_stamp ctx) fs = (existing, fs1)"
    by (cases "load_existing (backup_stamp ctx) fs")
  then have "existing = reload fs" using reload_stamp [of "backup_stamp ctx" fs] by simp
  with l assms show ?thesis
    by (simp add: save_opportunities_def merged_data_last_n reload_def load_existing_def
        rename_temp_def write_temp_def)
qed

lemma reload_save_batches:
  "length (reload fs) \<le> MAX_OPPORTUNITIES_IN_FILE \<Longrightarrow>
   reload (save_batches batches fs) =
     last_n MAX_OPPORTUNITIES_IN_FILE (reload fs @ saved_records batches)"
proof (induction batches arbitrary: fs)
  case Nil
  then show ?case by (simp add: saved_records_def last_n_short)
next
  case (Cons batch later)
  obtain ctx opportunities where b: "batch = (ctx, opportunities)" by (cases batch)
  let ?new = "map (add_metadata ctx) opportunities"
  let ?fs = "save_opportunities ctx opportunities fs"
  have step: "reload ?fs = last_n MAX_OPPORTUNITIES_IN_FILE (reload fs @ ?new)"
  proof (cases "opportunities = []")
    case True
    then show ?thesis using Cons.prems by (simp add: save_opportunities_def last_n_short)
  next
    case False
    then show ?thesis by (rule reload_save_opportunities)
  qed
  then have "length (reload ?fs) \<le> MAX_OPPORTUNITIES_IN_FILE"
    using cap_positive by (simp add: length_last_n)
  then have "reload (save_batches later ?fs) =
      last_n MAX_OPPORTUNITIES_IN_FILE (reload ?fs @ saved_records later)"
    by (rule Cons.IH)
  also have "\<dots> = last_n MAX_OPPORTUNITIES_IN_FILE ((reload fs @ ?new) @ saved_records later)"
    unfolding step using cap_positive by (rule last_n_append)
  finally show ?case by (simp add: b saved_records_def)
qed

lemma reload_fresh: "reload (save_batches batches no_files) =
    last_n MAX_OPPORTUNITIES_IN_FILE (saved_records batches)"
proof -
  have "reload no_files = []"
    by (simp add: reload_def load_existing_def no_files_def)
  then show ?thesis using reload_save_batches [of no_files batches] by simp
qed

lemma add_metadata_keeps_fields:
  "key \<notin> {''simulation_type'', ''iteration'', ''runtime_seconds''} \<Longrightarrow>
     map_of (add_metadata ctx opp) key = map_of opp key"
  by (simp add: add_metadata_def update_conv')

lemma save_opportunities_steps:
  assumes "opportunities \<noteq> []"
  shows "save_opportunities ctx opportunities fs =
      rename_temp (write_temp
        (merged_data ctx (fst (load_existing (backup_stamp ctx) fs)) opportunities)
        (snd (load_existing (backup_stamp ctx) fs)))"
  using assms by (simp add: save_opportunities_def split_beta)

text \<open>
  C8. Start without a log and save any sequence of batches. \<open>opp.update\<close> changes the
  records of the caller in place, so the records saved are the records of the batches with
  their three metadata keys, \<open>saved_records\<close>; every other key of a record keeps its
  value. When their number is at most \<open>MAX_OPPORTUNITIES_IN_FILE\<close> a reload gives exactly
  these records, in order. When it is larger, a reload gives their last
  \<open>MAX_OPPORTUNITIES_IN_FILE\<close>. Every save of a non-empty batch writes the temporary file,
  which leaves the log as it was, and then renames it onto the log.
\<close>

theorem save_batches_round_trip:
  "(length (saved_records batches) \<le> MAX_OPPORTUNITIES_IN_FILE \<longrightarrow>
      reload (save_batches batches no_files) = saved_records batches)
   \<and> (MAX_OPPORTUNITIES_IN_FILE < length (saved_records batches) \<longrightarrow>
      reload (save_batches batches no_files) =
        drop (length (saved_records batches) - MAX_OPPORTUNITIES_IN_FILE)
          (saved_records batches)
    \<and> length (reload (save_batches batches no_files)) = MAX_OPPORTUNITIES_IN_FILE)
   \<and> (key \<notin> {''simulation_type'', ''iteration'', ''runtime_seconds''} \<longrightarrow>
      map_of (add_metadata ctx opp) key = map_of opp key)
   \<and> (opportunities \<noteq> [] \<longrightarrow>
      save_opportunities ctx opportunities fs =
        rename_temp (write_temp
          (merged_data ctx (fst (load_existing (backup_stamp ctx) fs)) opportunities)
          (snd (load_existing (backup_stamp ctx) fs)))
    \<and> log_file (write_temp data fs) = log_file fs
    \<and> log_file (rename_temp (write_temp data fs)) = Some (Json_list data)
    \<and> temp_file (rename_temp (write_temp data fs)) = None)"
proof (intro conjI impI)
  assume "length (saved_records batches) \<le> MAX_OPPORTUNITIES_IN_FILE"
  then show "reload (save_batches batches no_files) = saved_records batches"
    unfolding reload_fresh by (rule last_n_short)
next
  assume big: "MAX_OPPORTUNITIES_IN_FILE < length (saved_records batches)"
  show "reload (save_batches batches no_files) =
        drop (length (saved_records batches) - MAX_OPPORTUNITIES_IN_FILE)
          (saved_records batches)"
    unfolding reload_fresh using cap_positive by (simp add: last_n_def)
  show "length (reload (save_batches batches no_files)) = MAX_OPPORTUNITIES_IN_FILE"
    unfolding reload_fresh using cap_positive big by (simp add: length_last_n)
next
  assume "key \<notin> {''simulation_type'', ''iteration'', ''runtime_seconds''}"
  then show "map_of (add_metadata ctx opp) key = map_of opp key"
    by (rule add_metadata_keeps_fields)
next
  assume "opportunities \<noteq> []"
  then show "save_opportunities ctx opportunities fs =
        rename_temp (write_temp
          (merged_data ctx (fst (load_existing (backup_stamp ctx) fs)) opportunities)
          (snd (load_existing (backup_stamp ctx) fs)))"
    by (rule save_opportunities_steps)
next
  show "log_file (write_temp data fs) = log_file fs"
    by (simp add: write_temp_def)
  show "log_file (rename_temp (write_temp data fs)) = Some (Json_list data)"
    by (simp add: write_temp_def rename_temp_def)
  show "temp_file (rename_temp (write_temp data fs)) = None"
    by (simp add: write_temp_def rename_temp_def)
qed

theorem save_batches_round_trip_witness:
  "length (saved_records
      [(\<lparr>iteration_count = 1, runtime_seconds = 2, backup_stamp = ''s''\<rparr>,
          [[(''ticker'', PStr ''AAPL'')], [(''ticker'', PStr ''TSLA'')]]),
       (\<lparr>iteration_count = 2, runtime_seconds = 3, backup_stamp = ''s''\<rparr>,
          [[(''ticker'', PStr ''MSFT'')]])]) \<le> MAX_OPPORTUNITIES_IN_FILE
   \<and> reload (save_batches
      [(\<lparr>iteration_count = 1, runtime_seconds = 2, backup_stamp = ''s''\<rparr>,
          [[(''ticker'', PStr ''AAPL'')], [(''ticker'', PStr ''TSLA'')]]),
       (\<lparr>iteration_count = 2, runtime_seconds = 3, backup_stamp = ''s''\<rparr>,
          [[(''ticker'', PStr ''MSFT'')]])] no_files) =
      [[(''ticker'', PStr ''AAPL''), (''simulation_type'', PStr ''real_api''),
        (''iteration'', PNum 1), (''runtime_seconds'', PNum 2)],
       [(''ticker'', PStr ''TSLA''), (''simulation_type'', PStr ''real_api''),
        (''iteration'', PNum 1), (''runtime_seconds'', PNum 2)],
       [(''ticker'', PStr ''MSFT''), (''simulation_type'', PStr ''real_api''),
        (''iteration'', PNum 2), (''runtime_seconds'', PNum 3)]]
   \<and> MAX_OPPORTUNITIES_IN_FILE < length (saved_records
      [(\<lparr>iteration_count = 1, runtime_seconds = 2, backup_stamp = ''s''\<rparr>,
          replicate 10001 [(''ticker'', PStr ''AAPL'')])])
   \<and> length (reload (save_batches
      [(\<lparr>iteration_count = 1, runtime_seconds = 2, backup_stamp = ''s''\<rparr>,
          replicate 10001 [(''ticker'', PStr ''AAPL'')])] no_files)) = 10000
   \<and> map_of (add_metadata \<lparr>iteration_count = 1, runtime_seconds = 2, backup_stamp = ''s''\<rparr>
        [(''ticker'', PStr ''AAPL'')]) ''ticker'' = Some (PStr ''AAPL'')"
proof -
  let ?c1 = "\<lparr>iteration_count = 1, runtime_seconds = 2, backup_stamp = ''s''\<rparr>"
  let ?c2 = "\<lparr>iteration_count = 2, runtime_seconds = 3, backup_stamp = ''s''\<rparr>"
  let ?small = "[(?c1, [[(''ticker'', PStr ''AAPL'')], [(''ticker'', PStr ''TSLA'')]]),
       (?c2, [[(''ticker'', PStr ''MSFT'')]])]"
  let ?big = "[(?c1, replicate 10001 [(''ticker'', PStr ''AAPL'')])]"
  note T = save_batches_round_trip
  have s: "length (saved_records ?small) \<le> MAX_OPPORTUNITIES_IN_FILE"
    by (simp add: saved_records_def MAX_OPPORTUNITIES_IN_FILE_def)
  have recs: "saved_records ?small =
      [[(''ticker'', PStr ''AAPL''), (''simulation_type'', PStr ''real_api''),
        (''iteration'', PNum 1), (''runtime_seconds'', PNum 2)],
       [(''ticker'', PStr ''TSLA''), (''simulation_type'', PStr ''real_api''),
        (''iteration'', PNum 1), (''runtime_seconds'', PNum 2)],
       [(''ticker'', PStr ''MSFT''), (''simulation_type'', PStr ''real_api''),
        (''iteration'', PNum 2), (''runtime_seconds'', PNum 3)]]"
    by (simp add: saved_records_def add_metadata_def)
  have a: "reload (save_batches ?small no_files) = saved_records ?small"
    by (rule T [where batches = ?small, THEN conjunct1, THEN mp, OF s])
  have one: "length (saved_records [(c, xs)]) = length xs" for c xs
    by (simp add: saved_records_def)
  have b: "MAX_OPPORTUNITIES_IN_FILE < length (saved_records ?big)"
    unfolding one length_replicate by (simp add: MAX_OPPORTUNITIES_IN_FILE_def)
  have "length (reload (save_batches ?big no_files)) = MAX_OPPORTUNITIES_IN_FILE"
    by (rule T [where batches = ?big, THEN conjunct2, THEN conjunct1, THEN mp, OF b,
          THEN conjunct2])
  then have c: "length (reload (save_batches ?big no_files)) = 10000"
    unfolding MAX_OPPORTUNITIES_IN_FILE_def .
  have k: "''ticker'' \<notin> {''simulation_type'', ''iteration'', ''runtime_seconds''}"
    by simp
  have "map_of (add_metadata ?c1 [(''ticker'', PStr ''AAPL'')]) ''ticker''
      = map_of [(''ticker'', PStr ''AAPL'')] ''ticker''"
    by (rule T [where key = "''ticker''" and ctx = ?c1 and opp = "[(''ticker'', PStr ''AAPL'')]",
          THEN conjunct2, THEN conjunct2, THEN conjunct1, THEN mp, OF k])
  then have d: "map_of (add_metadata ?c1 [(''ticker'', PStr ''AAPL'')]) ''ticker''
      = Some (PStr ''AAPL'')"
    by simp
  from a have a': "reload (save_batches ?small no_files) =
      [[(''ticker'', PStr ''AAPL''), (''simulation_type'', PStr ''real_api''),
        (''iteration'', PNum 1), (''runtime_seconds'', PNum 2)],
       [(''ticker'', PStr ''TSLA''), (''simulation_type'', PStr ''real_api''),
        (''iteration'', PNum 1), (''runtime_seconds'', PNum 2)],
       [(''ticker'', PStr ''MSFT''), (''simulation_type'', PStr ''real_api''),
        (''iteration'', PNum 2), (''runtime_seconds'', PNum 3)]]"
    unfolding recs .
  show ?thesis
    by (intro conjI) (rule s a' b c d)+
qed


section \<open>Properties of the failure counting\<close>

lemma poll_api_fails:
  assumes "fetch_fails outcome"
  shows "error_count (fst (poll_api outcome name (st, acc))) name = error_count st name + 1"
    and "max_errors_per_broker (fst (poll_api outcome name (st, acc))) = max_errors_per_broker st"
    and "simulation_mode (fst (poll_api outcome name (st, acc))) = simulation_mode st"
    and "apis (fst (poll_api outcome name (st, acc))) =
          (if max_errors_per_broker st \<le> error_count st name + 1
           then removeAll name (apis st) else apis st)"
    and "other \<noteq> name \<Longrightarrow>
          error_count (fst (poll_api outcome name (st, acc))) other = error_count st other"
  using assms by (simp_all add: poll_api_def Let_def error_count_def)

lemma poll_api_succeeds:
  assumes "\<not> fetch_fails outcome"
  shows "error_count (fst (poll_api outcome name (st, acc))) name = 0"
    and "max_errors_per_broker (fst (poll_api outcome name (st, acc))) = max_errors_per_broker st"
    and "simulation_mode (fst (poll_api outcome name (st, acc))) = simulation_mode st"
    and "apis (fst (poll_api outcome name (st, acc))) = apis st"
    and "other \<noteq> name \<Longrightarrow>
          error_count (fst (poll_api outcome name (st, acc))) other = error_count st other"
  using assms by (simp_all add: poll_api_def Let_def error_count_def)

lemma apis_poll_api_subset:
  "set (apis (fst (poll_api outcome name state))) \<subseteq> set (apis (fst state))"
  by (auto simp: poll_api_def Let_def)

lemma apis_poll_loop_subset:
  "set (apis (fst (poll_loop fetch_of names state))) \<subseteq> set (apis (fst state))"
proof (induction names arbitrary: state)
  case Nil
  show ?case by simp
next
  case (Cons name rest)
  let ?s = "poll_api (fetch_of name) name state"
  have one: "set (apis (fst ?s)) \<subseteq> set (apis (fst state))"
    by (rule apis_poll_api_subset)
  show ?case
  proof (cases "length (apis (fst ?s)) \<noteq> length (apis (fst state))")
    case True
    then show ?thesis using one by (simp add: Let_def)
  next
    case False
    then have "poll_loop fetch_of (name # rest) state = poll_loop fetch_of rest ?s"
      by (simp add: Let_def)
    then show ?thesis using Cons.IH [of ?s] one by auto
  qed
qed

lemma apis_get_real_time_prices_subset:
  "set (apis (fst (get_real_time_prices c st))) \<subseteq> set (apis st)"
proof (cases "simulation_mode st")
  case True
  then show ?thesis by (simp add: get_real_time_prices_def)
next
  case False
  obtain st' r where p: "poll_loop (fetch c) (apis st) (st, []) = (st', r)"
    by (cases "poll_loop (fetch c) (apis st) (st, [])")
  have "set (apis st') \<subseteq> set (apis st)"
    using apis_poll_loop_subset [of "fetch c" "apis st" "(st, [])"] p by simp
  moreover have "fst (get_real_time_prices c st) = st'"
    using False p by (cases r) (simp_all add: get_real_time_prices_def)
  ultimately show ?thesis by simp
qed

lemma apis_run_cycles_subset:
  "set (apis (run_cycles cs st)) \<subseteq> set (apis st)"
proof (induction cs arbitrary: st)
  case Nil
  show ?case by simp
next
  case (Cons c cs)
  show ?case
    using Cons.IH [of "fst (get_real_time_prices c st)"]
      apis_get_real_time_prices_subset [of c st] by auto
qed

lemma fst_get_real_time_prices:
  "\<not> simulation_mode st \<Longrightarrow>
     fst (get_real_time_prices c st) = fst (poll_loop (fetch c) (apis st) (st, []))"
  by (simp add: get_real_time_prices_def split: prod.splits sum.splits)

lemma poll_loop_others:
  assumes "name \<notin> set bs" and "\<forall>b \<in> set bs. \<not> fetch_fails (fetch_of b)"
  shows "\<exists>st' acc'. poll_loop fetch_of (bs @ rest) (st, acc) = poll_loop fetch_of rest (st', acc')
      \<and> apis st' = apis st \<and> max_errors_per_broker st' = max_errors_per_broker st
      \<and> simulation_mode st' = simulation_mode st
      \<and> error_count st' name = error_count st name"
  using assms
proof (induction bs arbitrary: st acc)
  case Nil
  show ?case by (rule exI [of _ st], rule exI [of _ acc]) simp
next
  case (Cons b bs)
  let ?s = "poll_api (fetch_of b) b (st, acc)"
  from Cons.prems have ok: "\<not> fetch_fails (fetch_of b)" and ne: "name \<noteq> b" by auto
  note f = poll_api_succeeds [OF ok, where name = b and st = st and acc = acc]
  have step: "poll_loop fetch_of ((b # bs) @ rest) (st, acc)
      = poll_loop fetch_of (bs @ rest) (fst ?s, snd ?s)"
    using f(4) by (simp add: Let_def)
  from Cons.prems have "name \<notin> set bs" and "\<forall>b \<in> set bs. \<not> fetch_fails (fetch_of b)"
    by auto
  from Cons.IH [OF this, of "fst ?s" "snd ?s"] obtain st' acc' where
    "poll_loop fetch_of (bs @ rest) (fst ?s, snd ?s) = poll_loop fetch_of rest (st', acc')"
    "apis st' = apis (fst ?s)" "max_errors_per_broker st' = max_errors_per_broker (fst ?s)"
    "simulation_mode st' = simulation_mode (fst ?s)"
    "error_count st' name = error_count (fst ?s) name"
    by blast
  with step f(2,3,4) f(5) [OF ne] show ?case by (intro exI [of _ st'] exI [of _ acc']) simp
qed

lemma poll_loop_one_failure:
  assumes pre: "name \<notin> set pre" and post: "name \<notin> set post"
    and active: "name \<in> set (apis st)"
    and others: "\<forall>b \<in> set pre \<union> set post. \<not> fetch_fails (fetch_of b)"
    and fails: "fetch_fails (fetch_of name)"
  shows "\<exists>st'. fst (poll_loop fetch_of (pre @ name # post) (st, acc)) = st'
      \<and> error_count st' name = error_count st name + 1
      \<and> max_errors_per_broker st' = max_errors_per_broker st
      \<and> simulation_mode st' = simulation_mode st
      \<and> apis st' = (if max_errors_per_broker st \<le> error_count st name + 1
                      then removeAll name (apis st) else apis st)"
proof -
  from others have o1: "\<forall>b \<in> set pre. \<not> fetch_fails (fetch_of b)"
    and o2: "\<forall>b \<in> set post. \<not> fetch_fails (fetch_of b)" by auto
  from poll_loop_others [OF pre o1, of "name # post" st acc] obtain st1 acc1 where
    l1: "poll_loop fetch_of (pre @ name # post) (st, acc)
           = poll_loop fetch_of (name # post) (st1, acc1)"
    and a1: "apis st1 = apis st" and m1: "max_errors_per_broker st1 = max_errors_per_broker st"
    and s1: "simulation_mode st1 = simulation_mode st"
    and e1: "error_count st1 name = error_count st name"
    by blast
  let ?s = "poll_api (fetch_of name) name (st1, acc1)"
  note f = poll_api_fails [OF fails, where name = name and st = st1 and acc = acc1]
  show ?thesis
  proof (cases "max_errors_per_broker st \<le> error_count st name + 1")
    case True
    then have ap: "apis (fst ?s) = removeAll name (apis st)"
      using f(4) a1 m1 e1 by simp
    then have "length (apis (fst ?s)) \<noteq> length (apis st1)"
      using length_removeAll_less [OF active] a1 by simp
    then have "poll_loop fetch_of (name # post) (st1, acc1) = (fst ?s, Inl RuntimeError)"
      by (simp add: Let_def)
    with l1 have "fst (poll_loop fetch_of (pre @ name # post) (st, acc)) = fst ?s" by simp
    with True ap f(1,2,3) m1 s1 e1 show ?thesis by simp
  next
    case False
    then have ap: "apis (fst ?s) = apis st1"
      using f(4) m1 e1 by simp
    then have "poll_loop fetch_of (name # post) (st1, acc1)
        = poll_loop fetch_of (post @ []) (fst ?s, snd ?s)"
      by (simp add: Let_def)
    moreover from poll_loop_others [OF post o2, of "[]" "fst ?s" "snd ?s"] obtain st3 acc3 where
      "poll_loop fetch_of (post @ []) (fst ?s, snd ?s) = poll_loop fetch_of [] (st3, acc3)"
      "apis st3 = apis (fst ?s)" "max_errors_per_broker st3 = max_errors_per_broker (fst ?s)"
      "simulation_mode st3 = simulation_mode (fst ?s)"
      "error_count st3 name = error_count (fst ?s) name"
      by blast
    ultimately show ?thesis
      using l1 False ap a1 f(1,2,3) m1 s1 e1 by simp
  qed
qed

lemma get_real_time_prices_one_failure:
  assumes live: "\<not> simulation_mode st" and dist: "distinct (apis st)"
    and active: "name \<in> set (apis st)"
    and fails: "fetch_fails (fetch c name)"
    and others: "\<forall>b \<in> set (apis st). b \<noteq> name \<longrightarrow> \<not> fetch_fails (fetch c b)"
  shows "error_count (fst (get_real_time_prices c st)) name = error_count st name + 1"
    and "max_errors_per_broker (fst (get_real_time_prices c st)) = max_errors_per_broker st"
    and "\<not> simulation_mode (fst (get_real_time_prices c st))"
    and "apis (fst (get_real_time_prices c st)) =
          (if max_errors_per_broker st \<le> error_count st name + 1
           then removeAll name (apis st) else apis st)"
proof -
  from split_list [OF active] obtain pre post where sp: "apis st = pre @ name # post"
    by blast
  with dist have "name \<notin> set pre" and "name \<notin> set post" by auto
  moreover from others sp dist have "\<forall>b \<in> set pre \<union> set post. \<not> fetch_fails (fetch c b)"
    by auto
  moreover note active fails
  ultimately obtain st' where
    "fst (poll_loop (fetch c) (pre @ name # post) (st, [])) = st'"
    "error_count st' name = error_count st name + 1"
    "max_errors_per_broker st' = max_errors_per_broker st"
    "simulation_mode st' = simulation_mode st"
    "apis st' = (if max_errors_per_broker st \<le> error_count st name + 1
                      then removeAll name (apis st) else apis st)"
    using poll_loop_one_failure [where name = name and pre = pre and post = post
        and st = st and fetch_of = "fetch c" and acc = "[]"] by blast
  then show "error_count (fst (get_real_time_prices c st)) name = error_count st name + 1"
    and "max_errors_per_broker (fst (get_real_time_prices c st)) = max_errors_per_broker st"
    and "\<not> simulation_mode (fst (get_real_time_prices c st))"
    and "apis (fst (get_real_time_prices c st)) =
          (if max_errors_per_broker st \<le> error_count st name + 1
           then removeAll name (apis st) else apis st)"
    using live unfolding fst_get_real_time_prices [OF live] sp [symmetric] by simp_all
qed

lemma get_real_time_prices_success:
  assumes live: "\<not> simulation_mode st" and dist: "distinct (apis st)"
    and active: "name \<in> set (apis st)"
    and all_ok: "\<forall>b \<in> set (apis st). \<not> fetch_fails (fetch c b)"
  shows "error_count (fst (get_real_time_prices c st)) name = 0"
    and "apis (fst (get_real_time_prices c st)) = apis st"
proof -
  from split_list [OF active] obtain pre post where sp: "apis st = pre @ name # post"
    by blast
  with dist have pre: "name \<notin> set pre" and post: "name \<notin> set post" by auto
  from all_ok sp have o1: "\<forall>b \<in> set pre. \<not> fetch_fails (fetch c b)"
    and o2: "\<forall>b \<in> set post. \<not> fetch_fails (fetch c b)"
    and ok: "\<not> fetch_fails (fetch c name)" by auto
  from poll_loop_others [OF pre o1, of "name # post" st "[]"] obtain st1 acc1 where
    l1: "poll_loop (fetch c) (pre @ name # post) (st, [])
           = poll_loop (fetch c) (name # post) (st1, acc1)"
    and a1: "apis st1 = apis st"
    by blast
  let ?s = "poll_api (fetch c name) name (st1, acc1)"
  note f = poll_api_succeeds [OF ok, where name = name and st = st1 and acc = acc1]
  have l2: "poll_loop (fetch c) (name # post) (st1, acc1)
        = poll_loop (fetch c) (post @ []) (fst ?s, snd ?s)"
    using f(4) by (simp add: Let_def)
  from poll_loop_others [OF post o2, of "[]" "fst ?s" "snd ?s"] obtain st3 acc3 where
    l3: "poll_loop (fetch c) (post @ []) (fst ?s, snd ?s) = poll_loop (fetch c) [] (st3, acc3)"
    and a3: "apis st3 = apis (fst ?s)"
    and e3: "error_count st3 name = error_count (fst ?s) name"
    by blast
  have "fst (get_real_time_prices c st) = st3"
    unfolding fst_get_real_time_prices [OF live] sp l1 l2 l3 by simp
  with a1 a3 e3 f(1,4) show "error_count (fst (get_real_time_prices c st)) name = 0"
    and "apis (fst (get_real_time_prices c st)) = apis st" by simp_all
qed

lemma run_cycles_append:
  "run_cycles (xs @ ys) st = run_cycles ys (run_cycles xs st)"
  by (induction xs arbitrary: st) simp_all

lemma run_cycles_failures_below:
  assumes "\<not> simulation_mode st" and "distinct (apis st)" and "name \<in> set (apis st)"
    and "\<forall>c \<in> set cs. fetch_fails (fetch c name)
          \<and> (\<forall>b \<in> set (apis st). b \<noteq> name \<longrightarrow> \<not> fetch_fails (fetch c b))"
    and "error_count st name + int (length cs) < max_errors_per_broker st"
  shows "apis (run_cycles cs st) = apis st
      \<and> error_count (run_cycles cs st) name = error_count st name + int (length cs)
      \<and> max_errors_per_broker (run_cycles cs st) = max_errors_per_broker st
      \<and> \<not> simulation_mode (run_cycles cs st)"
  using assms
proof (induction cs arbitrary: st)
  case Nil
  then show ?case by simp
next
  case (Cons c cs)
  let ?st = "fst (get_real_time_prices c st)"
  from Cons.prems(4) have fails: "fetch_fails (fetch c name)"
    and others: "\<forall>b \<in> set (apis st). b \<noteq> name \<longrightarrow> \<not> fetch_fails (fetch c b)"
    by auto
  note g = get_real_time_prices_one_failure [OF Cons.prems(1,2,3) fails others]
  from Cons.prems(5) have small: "\<not> max_errors_per_broker st \<le> error_count st name + 1"
    by simp
  with g(4) have ap: "apis ?st = apis st" by simp
  have "apis (run_cycles cs ?st) = apis ?st
      \<and> error_count (run_cycles cs ?st) name = error_count ?st name + int (length cs)
      \<and> max_errors_per_broker (run_cycles cs ?st) = max_errors_per_broker ?st
      \<and> \<not> simulation_mode (run_cycles cs ?st)"
  proof (rule Cons.IH)
    show "\<not> simulation_mode ?st" by (rule g(3))
    show "distinct (apis ?st)" unfolding ap by (rule Cons.prems(2))
    show "name \<in> set (apis ?st)" unfolding ap by (rule Cons.prems(3))
    show "\<forall>c \<in> set cs. fetch_fails (fetch c name)
          \<and> (\<forall>b \<in> set (apis ?st). b \<noteq> name \<longrightarrow> \<not> fetch_fails (fetch c b))"
      unfolding ap using Cons.prems(4) by simp
    show "error_count ?st name + int (length cs) < max_errors_per_broker ?st"
      unfolding g(1) g(2) using Cons.prems(5) by simp
  qed
  then show ?case unfolding g(1) g(2) ap by simp
qed

lemma run_cycles_failures_reach:
  assumes "\<not> simulation_mode st" and "distinct (apis st)" and "name \<in> set (apis st)"
    and "\<forall>c \<in> set cs. fetch_fails (fetch c name)
          \<and> (\<forall>b \<in> set (apis st). b \<noteq> name \<longrightarrow> \<not> fetch_fails (fetch c b))"
    and "cs \<noteq> []"
    and "error_count st name + int (length cs) = max_errors_per_broker st"
  shows "name \<notin> set (apis (run_cycles cs st))"
proof -
  from assms(5) obtain before c where cs: "cs = before @ [c]"
    by (cases cs rule: rev_cases) auto
  let ?st = "run_cycles before st"
  have b: "apis ?st = apis st
      \<and> error_count ?st name = error_count st name + int (length before)
      \<and> max_errors_per_broker ?st = max_errors_per_broker st
      \<and> \<not> simulation_mode ?st"
  proof (rule run_cycles_failures_below [OF assms(1,2,3)])
    show "\<forall>c \<in> set before. fetch_fails (fetch c name)
          \<and> (\<forall>b \<in> set (apis st). b \<noteq> name \<longrightarrow> \<not> fetch_fails (fetch c b))"
      using assms(4) unfolding cs by simp
    show "error_count st name + int (length before) < max_errors_per_broker st"
      using assms(6) unfolding cs by simp
  qed
  have c: "fetch_fails (fetch c name)"
    and o: "\<forall>b \<in> set (apis st). b \<noteq> name \<longrightarrow> \<not> fetch_fails (fetch c b)"
    using assms(4) unfolding cs by simp_all
  have "apis (fst (get_real_time_prices c ?st)) =
      (if max_errors_per_broker ?st \<le> error_count ?st name + 1
       then removeAll name (apis ?st) else apis ?st)"
  proof (rule get_real_time_prices_one_failure(4))
    show "\<not> simulation_mode ?st" using b by simp
    show "distinct (apis ?st)" using b assms(2) by simp
    show "name \<in> set (apis ?st)" using b assms(3) by simp
    show "fetch_fails (fetch c name)" by (rule c)
    show "\<forall>b \<in> set (apis ?st). b \<noteq> name \<longrightarrow> \<not> fetch_fails (fetch c b)"
      using b o by simp
  qed
  moreover have "max_errors_per_broker ?st \<le> error_count ?st name + 1"
    using b assms(6) unfolding cs by simp
  ultimately have "apis (fst (get_real_time_prices c ?st)) = removeAll name (apis st)"
    using b by simp
  moreover have "run_cycles cs st = fst (get_real_time_prices c ?st)"
    unfolding cs run_cycles_append by simp
  ultimately show ?thesis by simp
qed

lemma poll_api_apis:
  "apis (fst (poll_api outcome name (st, acc))) =
     (if fetch_fails outcome \<and> max_errors_per_broker st \<le> error_count st name + 1
      then removeAll name (apis st) else apis st)"
  by (simp add: poll_api_def Let_def error_count_def)

lemma poll_api_frame:
  "max_errors_per_broker (fst (poll_api outcome name (st, acc))) = max_errors_per_broker st"
  "simulation_mode (fst (poll_api outcome name (st, acc))) = simulation_mode st"
  "other \<noteq> name \<Longrightarrow>
     error_count (fst (poll_api outcome name (st, acc))) other = error_count st other"
  "other \<noteq> name \<Longrightarrow>
     other \<in> set (apis (fst (poll_api outcome name (st, acc)))) \<longleftrightarrow> other \<in> set (apis st)"
  "distinct (apis st) \<Longrightarrow> distinct (apis (fst (poll_api outcome name (st, acc))))"
  by (simp_all add: poll_api_def Let_def error_count_def distinct_removeAll)

lemma poll_api_count:
  "error_count (fst (poll_api outcome name (st, acc))) name =
     (if fetch_fails outcome then error_count st name + 1 else 0)"
  by (simp add: poll_api_def Let_def error_count_def)

lemma poll_loop_step:
  "poll_loop fetch_of (name # rest) (st, acc) =
     (if length (apis (fst (poll_api (fetch_of name) name (st, acc)))) \<noteq> length (apis st)
      then (fst (poll_api (fetch_of name) name (st, acc)), Inl RuntimeError)
      else poll_loop fetch_of rest
             (fst (poll_api (fetch_of name) name (st, acc)),
              snd (poll_api (fetch_of name) name (st, acc))))"
  by (simp add: Let_def)

lemma poll_loop_frame:
  "max_errors_per_broker (fst (poll_loop fetch_of names (st, acc))) = max_errors_per_broker st
   \<and> simulation_mode (fst (poll_loop fetch_of names (st, acc))) = simulation_mode st
   \<and> (distinct (apis st) \<longrightarrow> distinct (apis (fst (poll_loop fetch_of names (st, acc)))))
   \<and> (name \<notin> set names \<longrightarrow>
        error_count (fst (poll_loop fetch_of names (st, acc))) name = error_count st name
      \<and> (name \<in> set (apis (fst (poll_loop fetch_of names (st, acc)))) \<longleftrightarrow> name \<in> set (apis st)))"
proof (induction names arbitrary: st acc)
  case Nil
  show ?case by simp
next
  case (Cons b rest)
  let ?s = "poll_api (fetch_of b) b (st, acc)"
  note f = poll_api_frame [where outcome = "fetch_of b" and name = b and st = st and acc = acc]
  show ?case
  proof (cases "length (apis (fst ?s)) \<noteq> length (apis st)")
    case True
    then have "fst (poll_loop fetch_of (b # rest) (st, acc)) = fst ?s"
      unfolding poll_loop_step by simp
    then show ?thesis using f by auto
  next
    case False
    then have "fst (poll_loop fetch_of (b # rest) (st, acc))
        = fst (poll_loop fetch_of rest (fst ?s, snd ?s))"
      unfolding poll_loop_step by simp
    then show ?thesis using Cons.IH [of "fst ?s" "snd ?s"] f by auto
  qed
qed

lemma disables_cong:
  "max_errors_per_broker st' = max_errors_per_broker st \<Longrightarrow>
   error_count st' b = error_count st b \<Longrightarrow> disables c st' b = disables c st b"
  by (simp add: disables_def)

lemma poll_loop_source:
  assumes "distinct names" and "set names \<subseteq> set (apis st)" and "name \<in> set names"
  shows "(list_all (\<lambda>b. \<not> disables c st b) (takeWhile (\<lambda>b. b \<noteq> name) names) \<longrightarrow>
            error_count (fst (poll_loop (fetch c) names (st, acc))) name
              = (if fetch_fails (fetch c name) then error_count st name + 1 else 0)
          \<and> (name \<in> set (apis (fst (poll_loop (fetch c) names (st, acc))))
               \<longleftrightarrow> \<not> disables c st name))
       \<and> (\<not> list_all (\<lambda>b. \<not> disables c st b) (takeWhile (\<lambda>b. b \<noteq> name) names) \<longrightarrow>
            error_count (fst (poll_loop (fetch c) names (st, acc))) name = error_count st name
          \<and> name \<in> set (apis (fst (poll_loop (fetch c) names (st, acc)))))"
  using assms
proof (induction names arbitrary: st acc)
  case Nil
  then show ?case by simp
next
  case (Cons b rest)
  let ?s = "poll_api (fetch c b) b (st, acc)"
  let ?st2 = "fst ?s"
  note f = poll_api_frame [where outcome = "fetch c b" and name = b and st = st and acc = acc]
  have b_in: "b \<in> set (apis st)" using Cons.prems(2) by simp
  have name_in: "name \<in> set (apis st)" using Cons.prems(2,3) by auto
  have ap: "apis ?st2 = (if disables c st b then removeAll b (apis st) else apis st)"
    unfolding poll_api_apis disables_def ..
  show ?case
  proof (cases "disables c st b")
    case True
    then have "length (apis ?st2) \<noteq> length (apis st)"
      using ap length_removeAll_less [OF b_in] by simp
    then have stop: "fst (poll_loop (fetch c) (b # rest) (st, acc)) = ?st2"
      unfolding poll_loop_step by simp
    show ?thesis
    proof (cases "b = name")
      case same: True
      from True same have fails: "fetch_fails (fetch c name)" by (simp add: disables_def)
      have "error_count ?st2 name = error_count st name + 1"
        using fails same poll_api_count [of "fetch c b" b st acc] by simp
      moreover have "name \<notin> set (apis ?st2)" using ap True same by simp
      ultimately show ?thesis unfolding stop using True same fails by simp
    next
      case False
      then have "name \<noteq> b" by simp
      note g = f(3) [OF this] f(4) [OF this]
      have "\<not> list_all (\<lambda>b. \<not> disables c st b) (takeWhile (\<lambda>b. b \<noteq> name) (b # rest))"
        using True False by simp
      then show ?thesis unfolding stop using g name_in by simp
    qed
  next
    case False
    then have same_apis: "apis ?st2 = apis st" using ap by simp
    then have go: "fst (poll_loop (fetch c) (b # rest) (st, acc))
        = fst (poll_loop (fetch c) rest (?st2, snd ?s))"
      unfolding poll_loop_step by simp
    show ?thesis
    proof (cases "b = name")
      case True
      have "name \<notin> set rest" using Cons.prems(1) True by simp
      with poll_loop_frame [of "fetch c" rest ?st2 "snd ?s" name]
      have "error_count (fst (poll_loop (fetch c) rest (?st2, snd ?s))) name
            = error_count ?st2 name"
        and "name \<in> set (apis (fst (poll_loop (fetch c) rest (?st2, snd ?s))))
            \<longleftrightarrow> name \<in> set (apis ?st2)"
        by simp_all
      then show ?thesis
        unfolding go using True False same_apis name_in
          poll_api_count [of "fetch c b" b st acc] by simp
    next
      case neq: False
      then have ne: "name \<noteq> b" by simp
      note g = f(3) [OF ne]
      have d: "distinct rest" and sub: "set rest \<subseteq> set (apis ?st2)"
        and mem: "name \<in> set rest"
        using Cons.prems neq same_apis by auto
      have cong: "disables c ?st2 x = disables c st x" if "x \<in> set rest" for x
      proof -
        from that Cons.prems(1) have "x \<noteq> b" by auto
        then have "error_count ?st2 x = error_count st x" by (rule f(3))
        with f(1) show ?thesis by (rule disables_cong)
      qed
      have congn: "disables c ?st2 name = disables c st name"
        using cong [OF mem] .
      have all: "list_all (\<lambda>b. \<not> disables c ?st2 b) (takeWhile (\<lambda>b. b \<noteq> name) rest)
          \<longleftrightarrow> list_all (\<lambda>b. \<not> disables c st b) (takeWhile (\<lambda>b. b \<noteq> name) (b # rest))"
      proof -
        have "\<forall>x \<in> set (takeWhile (\<lambda>b. b \<noteq> name) rest). x \<in> set rest"
          by (auto dest: set_takeWhileD)
        then have "list_all (\<lambda>b. \<not> disables c ?st2 b) (takeWhile (\<lambda>b. b \<noteq> name) rest)
            \<longleftrightarrow> list_all (\<lambda>b. \<not> disables c st b) (takeWhile (\<lambda>b. b \<noteq> name) rest)"
          unfolding list_all_iff using cong by blast
        then show ?thesis using False neq by simp
      qed
      note IH = Cons.IH [OF d sub mem, of "snd ?s"]
      show ?thesis
        unfolding go using IH unfolding all g congn by simp
    qed
  qed
qed

lemma get_real_time_prices_frame:
  "max_errors_per_broker (fst (get_real_time_prices c st)) = max_errors_per_broker st"
  "simulation_mode (fst (get_real_time_prices c st)) = simulation_mode st"
  "distinct (apis st) \<Longrightarrow> distinct (apis (fst (get_real_time_prices c st)))"
  "name \<notin> set (apis st) \<Longrightarrow>
     error_count (fst (get_real_time_prices c st)) name = error_count st name
     \<and> name \<notin> set (apis (fst (get_real_time_prices c st)))"
proof -
  note p = poll_loop_frame [of "fetch c" "apis st" st "[]" name]
  have e: "fst (get_real_time_prices c st) =
      (if simulation_mode st then st else fst (poll_loop (fetch c) (apis st) (st, [])))"
    by (simp add: get_real_time_prices_def split: prod.splits sum.splits)
  show "max_errors_per_broker (fst (get_real_time_prices c st)) = max_errors_per_broker st"
    unfolding e using p by simp
  show "simulation_mode (fst (get_real_time_prices c st)) = simulation_mode st"
    unfolding e using p by simp
  show "distinct (apis st) \<Longrightarrow> distinct (apis (fst (get_real_time_prices c st)))"
    unfolding e using p by simp
  show "name \<notin> set (apis st) \<Longrightarrow>
     error_count (fst (get_real_time_prices c st)) name = error_count st name
     \<and> name \<notin> set (apis (fst (get_real_time_prices c st)))"
    unfolding e using p by simp
qed

lemma get_real_time_prices_source:
  assumes live: "\<not> simulation_mode st" and dist: "distinct (apis st)"
    and active: "name \<in> set (apis st)"
  shows "(polled c st name \<longrightarrow>
            error_count (fst (get_real_time_prices c st)) name
              = (if fetch_fails (fetch c name) then error_count st name + 1 else 0)
          \<and> (name \<in> set (apis (fst (get_real_time_prices c st)))
               \<longleftrightarrow> \<not> disables c st name))
       \<and> (\<not> polled c st name \<longrightarrow>
            error_count (fst (get_real_time_prices c st)) name = error_count st name
          \<and> name \<in> set (apis (fst (get_real_time_prices c st))))"
proof -
  have p: "polled c st name \<longleftrightarrow>
      list_all (\<lambda>b. \<not> disables c st b) (takeWhile (\<lambda>b. b \<noteq> name) (apis st))"
    using active by (simp add: polled_def)
  have s: "set (apis st) \<subseteq> set (apis st)" by simp
  show ?thesis
    unfolding fst_get_real_time_prices [OF live] p
    by (rule poll_loop_source [OF dist s active])
qed

lemma run_cycles_limit:
  assumes "\<not> simulation_mode st" and "distinct (apis st)"
    and "0 < max_errors_per_broker st"
    and "(name \<in> set (apis st) \<and> error_count st name < max_errors_per_broker st)
       \<or> (name \<notin> set (apis st) \<and> error_count st name = max_errors_per_broker st)"
  shows "\<not> simulation_mode (run_cycles cs st) \<and> distinct (apis (run_cycles cs st))
     \<and> max_errors_per_broker (run_cycles cs st) = max_errors_per_broker st
     \<and> ((name \<in> set (apis (run_cycles cs st))
          \<and> error_count (run_cycles cs st) name < max_errors_per_broker st)
       \<or> (name \<notin> set (apis (run_cycles cs st))
          \<and> error_count (run_cycles cs st) name = max_errors_per_broker st))"
  using assms
proof (induction cs arbitrary: st)
  case Nil
  then show ?case by simp
next
  case (Cons c cs)
  let ?st = "fst (get_real_time_prices c st)"
  note fr = get_real_time_prices_frame [where c = c and st = st]
  have live': "\<not> simulation_mode ?st" using fr(2) Cons.prems(1) by simp
  have dist': "distinct (apis ?st)" using fr(3) Cons.prems(2) by simp
  have inv': "(name \<in> set (apis ?st) \<and> error_count ?st name < max_errors_per_broker ?st)
       \<or> (name \<notin> set (apis ?st) \<and> error_count ?st name = max_errors_per_broker ?st)"
  proof (cases "name \<in> set (apis st)")
    case False
    with Cons.prems(4) have "error_count st name = max_errors_per_broker st" by simp
    with fr(4) [OF False] fr(1) show ?thesis by simp
  next
    case True
    with Cons.prems(4) have small: "error_count st name < max_errors_per_broker st" by simp
    note s = get_real_time_prices_source [OF Cons.prems(1,2) True, where c = c]
    show ?thesis
    proof (cases "polled c st name")
      case False
      with s small fr(1) show ?thesis by simp
    next
      case True
      with s have cnt: "error_count ?st name
              = (if fetch_fails (fetch c name) then error_count st name + 1 else 0)"
        and act: "name \<in> set (apis ?st) \<longleftrightarrow> \<not> disables c st name"
        by simp_all
      show ?thesis
      proof (cases "fetch_fails (fetch c name)")
        case True
        with cnt act small fr(1) show ?thesis by (auto simp: disables_def)
      next
        case False
        with cnt act small fr(1) Cons.prems(3) show ?thesis by (auto simp: disables_def)
      qed
    qed
  qed
  have pos': "0 < max_errors_per_broker ?st" using fr(1) Cons.prems(3) by simp
  from Cons.IH [OF live' dist' pos' inv'] show ?case using fr(1) by simp
qed

lemma run_cycles_fails_each_poll:
  assumes "\<not> simulation_mode st" and "distinct (apis st)" and "name \<in> set (apis st)"
    and "error_count st name < max_errors_per_broker st"
    and "fails_each_poll name cs st"
  shows "error_count (run_cycles cs st) name = error_count st name + int (length cs)
     \<and> (name \<in> set (apis (run_cycles cs st))
          \<longleftrightarrow> error_count st name + int (length cs) < max_errors_per_broker st)"
  using assms
proof (induction cs arbitrary: st)
  case Nil
  then show ?case by simp
next
  case (Cons c cs)
  let ?st = "fst (get_real_time_prices c st)"
  note fr = get_real_time_prices_frame [where c = c and st = st]
  from Cons.prems(5) have pol: "polled c st name" and fails: "fetch_fails (fetch c name)"
    and later: "fails_each_poll name cs ?st" by simp_all
  note s = get_real_time_prices_source [OF Cons.prems(1,2,3), where c = c]
  from s pol fails have cnt: "error_count ?st name = error_count st name + 1"
    and act: "name \<in> set (apis ?st) \<longleftrightarrow> \<not> disables c st name" by simp_all
  from act fails have act': "name \<in> set (apis ?st)
      \<longleftrightarrow> error_count st name + 1 < max_errors_per_broker st"
    by (auto simp: disables_def)
  show ?case
  proof (cases cs)
    case Nil
    with cnt act' show ?thesis by simp
  next
    case (Cons c2 cs2)
    with later have "polled c2 ?st name" by simp
    then have in': "name \<in> set (apis ?st)" by (simp add: polled_def)
    with act' have small: "error_count ?st name < max_errors_per_broker ?st"
      using cnt fr(1) by simp
    have live': "\<not> simulation_mode ?st" using fr(2) Cons.prems(1) by simp
    have dist': "distinct (apis ?st)" using fr(3) Cons.prems(2) by simp
    from Cons.IH [OF live' dist' in' small later] show ?thesis
      using cnt fr(1) by (simp add: add.assoc)
  qed
qed

lemma one_source_down_fetch:
  "fetch_fails (fetch (one_source_down bad) name) \<longleftrightarrow> name = bad"
  by (simp add: one_source_down_def fetch_fails_def api_prices_of_def)

text \<open>
  C5. For one source in the loop body: a failed fetch adds 1 to its count, a successful
  one sets the count to 0 and leaves the set of APIs alone, and neither touches the count
  or the membership of another source. For a whole call on a live stream, whatever the
  other sources do: a source that is polled gets its count raised by 1 when its fetch
  fails and set to 0 when it succeeds, and it stays active unless this failure brings the
  count to the limit; a source that is not polled (an earlier one was disabled in this
  call, or it is no longer active) keeps its count and its membership. \<open>__init__\<close>
  sets the limit to 5. From a count of 0 and with the limit 5, a run of calls in each of
  which the source is polled and fails counts the failures, and the source is active
  after it exactly when there were fewer than 5 of them: the fifth removes it. After any
  run of calls at all, a source that started active below the limit is active exactly
  when its count is below 5. No sequence of calls ever adds a source to the set of APIs,
  so a source once removed stays removed. (The two statements that assume the other
  sources succeed are instances of the general ones.)
\<close>

theorem source_failure_counting:
  "(fetch_fails outcome \<longrightarrow>
      error_count (fst (poll_api outcome name (st, acc))) name = error_count st name + 1)
   \<and> (\<not> fetch_fails outcome \<longrightarrow>
      error_count (fst (poll_api outcome name (st, acc))) name = 0
    \<and> apis (fst (poll_api outcome name (st, acc))) = apis st)
   \<and> (\<not> simulation_mode st \<and> distinct (apis st) \<and> name \<in> set (apis st)
      \<and> (\<forall>b \<in> set (apis st). b \<noteq> name \<longrightarrow> \<not> fetch_fails (fetch c b)) \<longrightarrow>
      error_count (fst (get_real_time_prices c st)) name =
        (if fetch_fails (fetch c name) then error_count st name + 1 else 0))
   \<and> max_errors_per_broker (initial_stream names) = 5
   \<and> (\<not> simulation_mode st \<and> max_errors_per_broker st = 5
      \<and> distinct (apis st) \<and> name \<in> set (apis st) \<and> error_count st name = 0
      \<and> (\<forall>c \<in> set cs. fetch_fails (fetch c name)
            \<and> (\<forall>b \<in> set (apis st). b \<noteq> name \<longrightarrow> \<not> fetch_fails (fetch c b))) \<longrightarrow>
      (length cs < 5 \<longrightarrow>
         name \<in> set (apis (run_cycles cs st))
       \<and> error_count (run_cycles cs st) name = int (length cs))
    \<and> (length cs = 5 \<longrightarrow> name \<notin> set (apis (run_cycles cs st))))
   \<and> set (apis (run_cycles cs st)) \<subseteq> set (apis st)
   \<and> (other \<noteq> name \<longrightarrow>
      error_count (fst (poll_api outcome name (st, acc))) other = error_count st other
    \<and> (other \<in> set (apis (fst (poll_api outcome name (st, acc))))
         \<longleftrightarrow> other \<in> set (apis st)))
   \<and> (\<not> simulation_mode st \<and> distinct (apis st) \<and> name \<in> set (apis st) \<longrightarrow>
      (polled c st name \<longrightarrow>
         error_count (fst (get_real_time_prices c st)) name
           = (if fetch_fails (fetch c name) then error_count st name + 1 else 0)
       \<and> (name \<in> set (apis (fst (get_real_time_prices c st)))
            \<longleftrightarrow> \<not> disables c st name))
    \<and> (\<not> polled c st name \<longrightarrow>
         error_count (fst (get_real_time_prices c st)) name = error_count st name
       \<and> name \<in> set (apis (fst (get_real_time_prices c st)))))
   \<and> (name \<notin> set (apis st) \<longrightarrow>
      error_count (fst (get_real_time_prices c st)) name = error_count st name
    \<and> name \<notin> set (apis (fst (get_real_time_prices c st))))
   \<and> (\<not> simulation_mode st \<and> max_errors_per_broker st = 5
      \<and> distinct (apis st) \<and> name \<in> set (apis st) \<and> error_count st name < 5 \<longrightarrow>
      (name \<in> set (apis (run_cycles cs st)) \<longleftrightarrow> error_count (run_cycles cs st) name < 5)
    \<and> error_count (run_cycles cs st) name \<le> 5)
   \<and> (\<not> simulation_mode st \<and> max_errors_per_broker st = 5
      \<and> distinct (apis st) \<and> name \<in> set (apis st) \<and> error_count st name = 0
      \<and> fails_each_poll name cs st \<longrightarrow>
      error_count (run_cycles cs st) name = int (length cs)
    \<and> (name \<in> set (apis (run_cycles cs st)) \<longleftrightarrow> length cs < 5))"
proof (intro conjI impI)
  assume "fetch_fails outcome"
  then show "error_count (fst (poll_api outcome name (st, acc))) name = error_count st name + 1"
    by (rule poll_api_fails(1))
next
  assume ok: "\<not> fetch_fails outcome"
  then show "error_count (fst (poll_api outcome name (st, acc))) name = 0"
    by (rule poll_api_succeeds(1))
  from ok show "apis (fst (poll_api outcome name (st, acc))) = apis st"
    by (rule poll_api_succeeds(4))
next
  assume h: "\<not> simulation_mode st \<and> distinct (apis st) \<and> name \<in> set (apis st)
      \<and> (\<forall>b \<in> set (apis st). b \<noteq> name \<longrightarrow> \<not> fetch_fails (fetch c b))"
  note live = h [THEN conjunct1]
    and dist = h [THEN conjunct2, THEN conjunct1]
    and active = h [THEN conjunct2, THEN conjunct2, THEN conjunct1]
    and others = h [THEN conjunct2, THEN conjunct2, THEN conjunct2]
  show "error_count (fst (get_real_time_prices c st)) name =
        (if fetch_fails (fetch c name) then error_count st name + 1 else 0)"
  proof (cases "fetch_fails (fetch c name)")
    case True
    from get_real_time_prices_one_failure(1) [OF live dist active True others] True
    show ?thesis by (simp only: if_True)
  next
    case False
    have "\<forall>b \<in> set (apis st). \<not> fetch_fails (fetch c b)"
    proof
      fix b
      assume b: "b \<in> set (apis st)"
      show "\<not> fetch_fails (fetch c b)"
      proof (cases "b = name")
        case True
        with False show ?thesis by simp
      next
        case False
        with others [THEN bspec, OF b] show ?thesis by (rule mp)
      qed
    qed
    from get_real_time_prices_success(1) [OF live dist active this] False
    show ?thesis by (simp only: if_False)
  qed
next
  show "max_errors_per_broker (initial_stream names) = 5"
    by (simp add: initial_stream_def)
next
  assume h: "\<not> simulation_mode st \<and> max_errors_per_broker st = 5
      \<and> distinct (apis st) \<and> name \<in> set (apis st) \<and> error_count st name = 0
      \<and> (\<forall>c \<in> set cs. fetch_fails (fetch c name)
            \<and> (\<forall>b \<in> set (apis st). b \<noteq> name \<longrightarrow> \<not> fetch_fails (fetch c b)))"
  and few: "length cs < 5"
  note live = h [THEN conjunct1]
    and k = h [THEN conjunct2, THEN conjunct1]
    and dist = h [THEN conjunct2, THEN conjunct2, THEN conjunct1]
    and active = h [THEN conjunct2, THEN conjunct2, THEN conjunct2, THEN conjunct1]
    and zero = h [THEN conjunct2, THEN conjunct2, THEN conjunct2, THEN conjunct2, THEN conjunct1]
    and fails = h [THEN conjunct2, THEN conjunct2, THEN conjunct2, THEN conjunct2, THEN conjunct2]
  from few k zero have "error_count st name + int (length cs) < max_errors_per_broker st"
    by simp
  note b = run_cycles_failures_below [OF live dist active fails this]
  from b active show "name \<in> set (apis (run_cycles cs st))" by simp
  from b zero show "error_count (run_cycles cs st) name = int (length cs)" by simp
next
  assume h: "\<not> simulation_mode st \<and> max_errors_per_broker st = 5
      \<and> distinct (apis st) \<and> name \<in> set (apis st) \<and> error_count st name = 0
      \<and> (\<forall>c \<in> set cs. fetch_fails (fetch c name)
            \<and> (\<forall>b \<in> set (apis st). b \<noteq> name \<longrightarrow> \<not> fetch_fails (fetch c b)))"
  and five: "length cs = 5"
  note live = h [THEN conjunct1]
    and k = h [THEN conjunct2, THEN conjunct1]
    and dist = h [THEN conjunct2, THEN conjunct2, THEN conjunct1]
    and active = h [THEN conjunct2, THEN conjunct2, THEN conjunct2, THEN conjunct1]
    and zero = h [THEN conjunct2, THEN conjunct2, THEN conjunct2, THEN conjunct2, THEN conjunct1]
    and fails = h [THEN conjunct2, THEN conjunct2, THEN conjunct2, THEN conjunct2, THEN conjunct2]
  from five k zero have reach: "error_count st name + int (length cs) = max_errors_per_broker st"
    by simp
  from five have ne: "cs \<noteq> []" by auto
  show "name \<notin> set (apis (run_cycles cs st))"
    by (rule run_cycles_failures_reach [OF live dist active fails ne reach])
next
  show "set (apis (run_cycles cs st)) \<subseteq> set (apis st)"
    by (rule apis_run_cycles_subset)
next
  assume ne: "other \<noteq> name"
  show "error_count (fst (poll_api outcome name (st, acc))) other = error_count st other"
    by (rule poll_api_frame(3) [OF ne])
  show "other \<in> set (apis (fst (poll_api outcome name (st, acc))))
         \<longleftrightarrow> other \<in> set (apis st)"
    by (rule poll_api_frame(4) [OF ne])
next
  assume h: "\<not> simulation_mode st \<and> distinct (apis st) \<and> name \<in> set (apis st)"
  note s = get_real_time_prices_source [OF h [THEN conjunct1]
      h [THEN conjunct2, THEN conjunct1] h [THEN conjunct2, THEN conjunct2], where c = c]
  {
    assume p: "polled c st name"
    note r = s [THEN conjunct1, THEN mp, OF p]
    show "error_count (fst (get_real_time_prices c st)) name
           = (if fetch_fails (fetch c name) then error_count st name + 1 else 0)"
      by (rule r [THEN conjunct1])
    show "name \<in> set (apis (fst (get_real_time_prices c st)))
            \<longleftrightarrow> \<not> disables c st name"
      by (rule r [THEN conjunct2])
  }
  {
    assume p: "\<not> polled c st name"
    note r = s [THEN conjunct2, THEN mp, OF p]
    show "error_count (fst (get_real_time_prices c st)) name = error_count st name"
      by (rule r [THEN conjunct1])
    show "name \<in> set (apis (fst (get_real_time_prices c st)))"
      by (rule r [THEN conjunct2])
  }
next
  assume out: "name \<notin> set (apis st)"
  note r = get_real_time_prices_frame(4) [OF out, where c = c]
  show "error_count (fst (get_real_time_prices c st)) name = error_count st name"
    by (rule r [THEN conjunct1])
  show "name \<notin> set (apis (fst (get_real_time_prices c st)))"
    by (rule r [THEN conjunct2])
next
  assume h: "\<not> simulation_mode st \<and> max_errors_per_broker st = 5
      \<and> distinct (apis st) \<and> name \<in> set (apis st) \<and> error_count st name < 5"
  note live = h [THEN conjunct1]
    and k = h [THEN conjunct2, THEN conjunct1]
    and dist = h [THEN conjunct2, THEN conjunct2, THEN conjunct1]
    and active = h [THEN conjunct2, THEN conjunct2, THEN conjunct2, THEN conjunct1]
    and small = h [THEN conjunct2, THEN conjunct2, THEN conjunct2, THEN conjunct2]
  have pos: "0 < max_errors_per_broker st" using k by simp
  have inv: "(name \<in> set (apis st) \<and> error_count st name < max_errors_per_broker st)
       \<or> (name \<notin> set (apis st) \<and> error_count st name = max_errors_per_broker st)"
    using active small k by simp
  note r = run_cycles_limit [OF live dist pos inv, of cs]
  from r k show "name \<in> set (apis (run_cycles cs st))
      \<longleftrightarrow> error_count (run_cycles cs st) name < 5" by auto
  from r k show "error_count (run_cycles cs st) name \<le> 5" by auto
next
  assume h: "\<not> simulation_mode st \<and> max_errors_per_broker st = 5
      \<and> distinct (apis st) \<and> name \<in> set (apis st) \<and> error_count st name = 0
      \<and> fails_each_poll name cs st"
  note live = h [THEN conjunct1]
    and k = h [THEN conjunct2, THEN conjunct1]
    and dist = h [THEN conjunct2, THEN conjunct2, THEN conjunct1]
    and active = h [THEN conjunct2, THEN conjunct2, THEN conjunct2, THEN conjunct1]
    and zero = h [THEN conjunct2, THEN conjunct2, THEN conjunct2, THEN conjunct2, THEN conjunct1]
    and each = h [THEN conjunct2, THEN conjunct2, THEN conjunct2, THEN conjunct2, THEN conjunct2]
  have small: "error_count st name < max_errors_per_broker st" using zero k by simp
  note r = run_cycles_fails_each_poll [OF live dist active small each]
  from r zero show "error_count (run_cycles cs st) name = int (length cs)" by simp
  from r zero k show "name \<in> set (apis (run_cycles cs st)) \<longleftrightarrow> length cs < 5" by simp
qed

theorem source_failure_counting_witness:
  "\<not> simulation_mode (initial_stream [''alpha'', ''beta''])
   \<and> distinct (apis (initial_stream [''alpha'', ''beta'']))
   \<and> error_count (initial_stream [''alpha'', ''beta'']) ''alpha'' = 0
   \<and> fetch_fails (fetch (one_source_down ''alpha'') ''alpha'')
   \<and> \<not> fetch_fails (fetch (one_source_down ''alpha'') ''beta'')
   \<and> ''alpha'' \<in> set (apis (run_cycles (replicate 4 (one_source_down ''alpha''))
                            (initial_stream [''alpha'', ''beta''])))
   \<and> error_count (run_cycles (replicate 4 (one_source_down ''alpha''))
                   (initial_stream [''alpha'', ''beta''])) ''alpha'' = 4
   \<and> ''alpha'' \<notin> set (apis (run_cycles (replicate 5 (one_source_down ''alpha''))
                            (initial_stream [''alpha'', ''beta''])))
   \<and> error_count (fst (get_real_time_prices (one_source_down ''alpha'')
                   (initial_stream [''alpha'', ''beta'']))) ''alpha'' = 1
   \<and> error_count (fst (get_real_time_prices (one_source_down ''gamma'')
                   ((initial_stream [''alpha'', ''beta''])
                      \<lparr>error_counts := [''alpha'' \<mapsto> 3]\<rparr>))) ''alpha'' = 0
   \<and> error_count (fst (poll_api Fetch_raises ''alpha''
                   (initial_stream [''alpha'', ''beta''], []))) ''beta''
       = error_count (initial_stream [''alpha'', ''beta'']) ''beta''
   \<and> fails_each_poll ''alpha'' (replicate 5 all_sources_down)
         (initial_stream [''alpha'', ''beta''])
   \<and> error_count (run_cycles (replicate 5 all_sources_down)
                   (initial_stream [''alpha'', ''beta''])) ''alpha'' = 5
   \<and> ''alpha'' \<notin> set (apis (run_cycles (replicate 5 all_sources_down)
                            (initial_stream [''alpha'', ''beta''])))
   \<and> error_count (run_cycles (replicate 5 all_sources_down)
                   (initial_stream [''alpha'', ''beta''])) ''beta'' = 4
   \<and> ''beta'' \<in> set (apis (run_cycles (replicate 5 all_sources_down)
                           (initial_stream [''alpha'', ''beta''])))
   \<and> error_count (run_cycles (replicate 6 all_sources_down)
                   (initial_stream [''alpha'', ''beta''])) ''beta'' = 5
   \<and> ''beta'' \<notin> set (apis (run_cycles (replicate 6 all_sources_down)
                            (initial_stream [''alpha'', ''beta''])))
   \<and> \<not> polled all_sources_down
         (run_cycles (replicate 4 all_sources_down) (initial_stream [''alpha'', ''beta'']))
         ''beta''
   \<and> error_count (fst (get_real_time_prices all_sources_down
         (run_cycles (replicate 4 all_sources_down) (initial_stream [''alpha'', ''beta'']))))
         ''beta''
       = error_count
           (run_cycles (replicate 4 all_sources_down) (initial_stream [''alpha'', ''beta'']))
           ''beta''
   \<and> error_count (fst (get_real_time_prices all_sources_down
                   (initial_stream [''alpha'', ''beta'']))) ''gamma''
       = error_count (initial_stream [''alpha'', ''beta'']) ''gamma''
   \<and> polled all_sources_down (initial_stream [''alpha'', ''beta'']) ''beta''
   \<and> error_count (fst (get_real_time_prices all_sources_down
                   (initial_stream [''alpha'', ''beta'']))) ''alpha'' = 1
   \<and> error_count (fst (get_real_time_prices all_sources_down
                   (initial_stream [''alpha'', ''beta'']))) ''beta'' = 1
   \<and> ''beta'' \<in> set (apis (fst (get_real_time_prices all_sources_down
                   (initial_stream [''alpha'', ''beta'']))))"
proof -
  let ?st = "initial_stream [''alpha'', ''beta'']"
  let ?c = "one_source_down ''alpha''"
  note T = source_failure_counting
  have live: "\<not> simulation_mode ?st" and dist: "distinct (apis ?st)"
    and zero: "error_count ?st ''alpha'' = 0"
    by (simp_all add: initial_stream_def error_count_def)
  have down: "fetch_fails (fetch ?c ''alpha'')" and up: "\<not> fetch_fails (fetch ?c ''beta'')"
    by (simp_all add: one_source_down_fetch)
  have h: "\<not> simulation_mode ?st \<and> max_errors_per_broker ?st = 5
      \<and> distinct (apis ?st) \<and> ''alpha'' \<in> set (apis ?st) \<and> error_count ?st ''alpha'' = 0
      \<and> (\<forall>c \<in> set (replicate n ?c). fetch_fails (fetch c ''alpha'')
            \<and> (\<forall>b \<in> set (apis ?st). b \<noteq> ''alpha'' \<longrightarrow> \<not> fetch_fails (fetch c b)))" for n
    by (simp add: initial_stream_def error_count_def one_source_down_fetch)
  note run4 = T [where st = ?st and name = "''alpha''" and cs = "replicate 4 ?c",
      THEN conjunct2, THEN conjunct2, THEN conjunct2, THEN conjunct2, THEN conjunct1,
      THEN mp, OF h]
  note run5 = T [where st = ?st and name = "''alpha''" and cs = "replicate 5 ?c",
      THEN conjunct2, THEN conjunct2, THEN conjunct2, THEN conjunct2, THEN conjunct1,
      THEN mp, OF h]
  have four: "length (replicate 4 ?c) < 5" and five: "length (replicate 5 ?c) = 5"
    by simp_all
  note r4 = run4 [THEN conjunct1, THEN mp, OF four]
  note r5 = run5 [THEN conjunct2, THEN mp, OF five]
  have e4: "error_count (run_cycles (replicate 4 ?c) ?st) ''alpha'' = 4"
    using r4 [THEN conjunct2] by simp
  have ha: "\<not> simulation_mode ?st \<and> distinct (apis ?st) \<and> ''alpha'' \<in> set (apis ?st)
      \<and> (\<forall>b \<in> set (apis ?st). b \<noteq> ''alpha'' \<longrightarrow> \<not> fetch_fails (fetch ?c b))"
    by (simp add: initial_stream_def one_source_down_fetch)
  have a1: "error_count (fst (get_real_time_prices ?c ?st)) ''alpha'' = 1"
    using T [where st = ?st and name = "''alpha''" and c = ?c,
      THEN conjunct2, THEN conjunct2, THEN conjunct1, THEN mp, OF ha] down zero
    by simp
  let ?st3 = "?st\<lparr>error_counts := [''alpha'' \<mapsto> 3]\<rparr>"
  let ?ok = "one_source_down ''gamma''"
  have hb: "\<not> simulation_mode ?st3 \<and> distinct (apis ?st3) \<and> ''alpha'' \<in> set (apis ?st3)
      \<and> (\<forall>b \<in> set (apis ?st3). b \<noteq> ''alpha'' \<longrightarrow> \<not> fetch_fails (fetch ?ok b))"
    by (simp add: initial_stream_def one_source_down_fetch)
  have ok: "\<not> fetch_fails (fetch ?ok ''alpha'')"
    by (simp add: one_source_down_fetch)
  have a0: "error_count (fst (get_real_time_prices ?ok ?st3)) ''alpha'' = 0"
    using T [where st = ?st3 and name = "''alpha''" and c = ?ok,
      THEN conjunct2, THEN conjunct2, THEN conjunct1, THEN mp, OF hb] ok
    by simp
  let ?d = all_sources_down
  have dn: "fetch_fails (fetch ?d name)" for name
    by (simp add: all_sources_down_def fetch_fails_def)
  note ev = initial_stream_def get_real_time_prices_def poll_api_def error_count_def
    Let_def dn polled_def disables_def eval_nat_numeral
  have ne: "''beta'' \<noteq> ''alpha''" by simp
  note b0 = T [where other = "''beta''" and name = "''alpha''" and outcome = Fetch_raises
      and st = ?st and acc = "[]",
      THEN conjunct2, THEN conjunct2, THEN conjunct2, THEN conjunct2, THEN conjunct2,
      THEN conjunct2, THEN conjunct1, THEN mp, OF ne, THEN conjunct1]
  have fa: "fails_each_poll ''alpha'' (replicate 5 ?d) ?st"
    by (simp add: ev)
  have ha: "\<not> simulation_mode ?st \<and> max_errors_per_broker ?st = 5
      \<and> distinct (apis ?st) \<and> ''alpha'' \<in> set (apis ?st) \<and> error_count ?st ''alpha'' = 0
      \<and> fails_each_poll ''alpha'' (replicate 5 ?d) ?st"
    using fa by (simp add: initial_stream_def error_count_def)
  note ra = T [where st = ?st and name = "''alpha''" and cs = "replicate 5 ?d",
      THEN conjunct2, THEN conjunct2, THEN conjunct2, THEN conjunct2, THEN conjunct2,
      THEN conjunct2, THEN conjunct2, THEN conjunct2, THEN conjunct2, THEN conjunct2,
      THEN mp, OF ha]
  have a5: "error_count (run_cycles (replicate 5 ?d) ?st) ''alpha'' = 5"
    using ra [THEN conjunct1] by simp
  have an: "''alpha'' \<notin> set (apis (run_cycles (replicate 5 ?d) ?st))"
    using ra [THEN conjunct2] by simp
  have hl: "\<not> simulation_mode ?st \<and> max_errors_per_broker ?st = 5
      \<and> distinct (apis ?st) \<and> ''beta'' \<in> set (apis ?st) \<and> error_count ?st ''beta'' < 5"
    by (simp add: initial_stream_def error_count_def)
  note rb5 = T [where st = ?st and name = "''beta''" and cs = "replicate 5 ?d",
      THEN conjunct2, THEN conjunct2, THEN conjunct2, THEN conjunct2, THEN conjunct2,
      THEN conjunct2, THEN conjunct2, THEN conjunct2, THEN conjunct2, THEN conjunct1,
      THEN mp, OF hl, THEN conjunct1]
  note rb6 = T [where st = ?st and name = "''beta''" and cs = "replicate 6 ?d",
      THEN conjunct2, THEN conjunct2, THEN conjunct2, THEN conjunct2, THEN conjunct2,
      THEN conjunct2, THEN conjunct2, THEN conjunct2, THEN conjunct2, THEN conjunct1,
      THEN mp, OF hl, THEN conjunct1]
  have b5: "error_count (run_cycles (replicate 5 ?d) ?st) ''beta'' = 4"
    by (simp add: ev)
  have b6: "error_count (run_cycles (replicate 6 ?d) ?st) ''beta'' = 5"
    by (simp add: ev)
  have bin: "''beta'' \<in> set (apis (run_cycles (replicate 5 ?d) ?st))"
    using rb5 unfolding b5 by simp
  have bout: "''beta'' \<notin> set (apis (run_cycles (replicate 6 ?d) ?st))"
    using rb6 unfolding b6 by simp
  let ?st4 = "run_cycles (replicate 4 ?d) ?st"
  have np: "\<not> polled ?d ?st4 ''beta''"
    by (simp add: ev)
  have h4: "\<not> simulation_mode ?st4 \<and> distinct (apis ?st4) \<and> ''beta'' \<in> set (apis ?st4)"
    by (simp add: ev)
  note skip = T [where st = ?st4 and name = "''beta''" and c = ?d,
      THEN conjunct2, THEN conjunct2, THEN conjunct2, THEN conjunct2, THEN conjunct2,
      THEN conjunct2, THEN conjunct2, THEN conjunct1, THEN mp, OF h4,
      THEN conjunct2, THEN mp, OF np, THEN conjunct1]
  have g: "''gamma'' \<notin> set (apis ?st)" by (simp add: initial_stream_def)
  note gm = T [where st = ?st and name = "''gamma''" and c = ?d,
      THEN conjunct2, THEN conjunct2, THEN conjunct2, THEN conjunct2, THEN conjunct2,
      THEN conjunct2, THEN conjunct2, THEN conjunct2, THEN conjunct1, THEN mp, OF g,
      THEN conjunct1]
  have pa: "polled ?d ?st ''alpha''" and pb: "polled ?d ?st ''beta''"
    by (simp_all add: ev)
  have h0a: "\<not> simulation_mode ?st \<and> distinct (apis ?st) \<and> ''alpha'' \<in> set (apis ?st)"
    and h0b: "\<not> simulation_mode ?st \<and> distinct (apis ?st) \<and> ''beta'' \<in> set (apis ?st)"
    by (simp_all add: initial_stream_def)
  note qa = T [where st = ?st and name = "''alpha''" and c = ?d,
      THEN conjunct2, THEN conjunct2, THEN conjunct2, THEN conjunct2, THEN conjunct2,
      THEN conjunct2, THEN conjunct2, THEN conjunct1, THEN mp, OF h0a,
      THEN conjunct1, THEN mp, OF pa]
  note qb = T [where st = ?st and name = "''beta''" and c = ?d,
      THEN conjunct2, THEN conjunct2, THEN conjunct2, THEN conjunct2, THEN conjunct2,
      THEN conjunct2, THEN conjunct2, THEN conjunct1, THEN mp, OF h0b,
      THEN conjunct1, THEN mp, OF pb]
  have zb: "error_count ?st ''beta'' = 0" by (simp add: initial_stream_def error_count_def)
  have nd: "\<not> disables ?d ?st ''beta''"
    by (simp add: disables_def initial_stream_def error_count_def)
  have c1a: "error_count (fst (get_real_time_prices ?d ?st)) ''alpha'' = 1"
    using qa [THEN conjunct1] dn zero by simp
  have c1b: "error_count (fst (get_real_time_prices ?d ?st)) ''beta'' = 1"
    using qb [THEN conjunct1] dn zb by simp
  have inb: "''beta'' \<in> set (apis (fst (get_real_time_prices ?d ?st)))"
    using qb [THEN conjunct2] nd by simp
  show ?thesis
    by (intro conjI) (rule live dist zero down up r4 [THEN conjunct1] e4 r5 a1 a0
        b0 fa a5 an b5 bin b6 bout np skip gm pb c1a c1b inb)+
qed

subsection \<open>Disabling a source inside the loop\<close>

text \<open>
  A call on a live stream raises \<open>RuntimeError\<close> exactly when it has removed a source.
\<close>

lemma poll_loop_raises_iff:
  "snd (poll_loop fetch_of names state) = Inl RuntimeError \<longleftrightarrow>
     length (apis (fst (poll_loop fetch_of names state))) \<noteq> length (apis (fst state))"
proof (induction names arbitrary: state)
  case Nil
  show ?case by simp
next
  case (Cons name rest)
  let ?s = "poll_api (fetch_of name) name state"
  show ?case
  proof (cases "length (apis (fst ?s)) \<noteq> length (apis (fst state))")
    case True
    then show ?thesis by (simp add: Let_def)
  next
    case False
    then have "poll_loop fetch_of (name # rest) state = poll_loop fetch_of rest ?s"
      by (simp add: Let_def)
    with False Cons.IH [of ?s] show ?thesis by simp
  qed
qed

lemma get_real_time_prices_raises_iff:
  assumes "\<not> simulation_mode st"
  shows "snd (get_real_time_prices c st) = Inl RuntimeError \<longleftrightarrow>
     length (apis (fst (get_real_time_prices c st))) \<noteq> length (apis st)"
proof -
  obtain st' r where p: "poll_loop (fetch c) (apis st) (st, []) = (st', r)"
    by (cases "poll_loop (fetch c) (apis st) (st, [])")
  have "r = Inl RuntimeError \<longleftrightarrow> length (apis st') \<noteq> length (apis st)"
    using poll_loop_raises_iff [of "fetch c" "apis st" "(st, [])"] p by simp
  moreover have "fst (get_real_time_prices c st) = st'"
    and "snd (get_real_time_prices c st) = Inl RuntimeError \<longleftrightarrow> r = Inl RuntimeError"
    using assms p by (cases r; simp add: get_real_time_prices_def)+
  ultimately show ?thesis by simp
qed

text \<open>
  C6 asks that a call in which a source reaches the limit still returns the prices of the
  call. The source does not: with the APIs alpha and beta, alpha at 4 failures and failing
  again, alpha is removed and the call raises \<open>RuntimeError\<close> before beta is polled; the
  same happens when the source removed is beta, the last one iterated.
\<close>

theorem get_real_time_prices_disable_raises:
  "snd (get_real_time_prices (one_source_down ''alpha'')
         ((initial_stream [''alpha'', ''beta''])\<lparr>error_counts := [''alpha'' \<mapsto> 4]\<rparr>))
     = Inl RuntimeError
   \<and> apis (fst (get_real_time_prices (one_source_down ''alpha'')
         ((initial_stream [''alpha'', ''beta''])\<lparr>error_counts := [''alpha'' \<mapsto> 4]\<rparr>)))
     = [''beta'']
   \<and> snd (get_real_time_prices (one_source_down ''beta'')
         ((initial_stream [''alpha'', ''beta''])\<lparr>error_counts := [''beta'' \<mapsto> 4]\<rparr>))
     = Inl RuntimeError
   \<and> apis (fst (get_real_time_prices (one_source_down ''beta'')
         ((initial_stream [''alpha'', ''beta''])\<lparr>error_counts := [''beta'' \<mapsto> 4]\<rparr>)))
     = [''alpha'']"
  by (simp add: get_real_time_prices_def initial_stream_def poll_api_def one_source_down_fetch
      error_count_def Let_def)

end
